theory Spec2Isabelle
  imports Complex_Main "HOL-Library.Monad_Syntax"
begin

section \<open>Gesture interpretation and virtual input injection\<close>

text \<open>
  A shallow embedding of the gesture pipeline of \<^verbatim>\<open>src/utils.ts\<close>: the math helpers and
  the class \<^verbatim>\<open>EMA\<close> (first part of the file) and the frame loop of the component
  \<^verbatim>\<open>App\<close> (second part): \<^verbatim>\<open>predictWebcam\<close>, \<^verbatim>\<open>resetDrag\<close>, \<^verbatim>\<open>processLeftHand\<close>,
  \<^verbatim>\<open>processRightHand\<close> and \<^verbatim>\<open>handleCursorInteraction\<close>.

  In the frame loop the JavaScript numbers are modelled as \<^typ>\<open>real\<close>, which decides
  every comparison of the loop as the exact values do. The class \<^verbatim>\<open>EMA\<close>, \<^verbatim>\<open>lerp\<close> and
  the right hand are modelled a second time in IEEE double arithmetic (\<open>EMA64_update\<close>,
  \<open>lerp64\<close>, \<open>processRightHand64\<close>): the values they compute depend on the rounding.
  The readings of \<^verbatim>\<open>Date.now()\<close> are integers (milliseconds), one reading per frame.
\<close>

subsection \<open>Math helpers\<close>

definition lerp :: "real \<Rightarrow> real \<Rightarrow> real \<Rightarrow> real" where
  "lerp start finish t = start * (1 - t) + finish * t"

record point =
  px :: real
  py :: real
  pz :: real

definition distance3D :: "point \<Rightarrow> point \<Rightarrow> real" where
  "distance3D p1 p2 =
     sqrt ((px p1 - px p2)\<^sup>2 + (py p1 - py p2)\<^sup>2 + (pz p1 - pz p2)\<^sup>2)"

subsection \<open>Exponential moving average\<close>

text \<open>
  The class \<^verbatim>\<open>EMA\<close> has the private fields \<^verbatim>\<open>alpha\<close> and \<^verbatim>\<open>value\<close> (a number or
  \<^verbatim>\<open>null\<close>). \<^verbatim>\<open>update\<close> mutates the instance and returns the stored value: the model
  returns the pair of the returned number and the instance after the call.
\<close>

record EMA =
  alpha :: real
  ema_value :: "real option"

definition EMA_new :: "real \<Rightarrow> EMA" where
  "EMA_new a = \<lparr>alpha = a, ema_value = None\<rparr>"

definition EMA_update :: "EMA \<Rightarrow> real \<Rightarrow> real \<times> EMA" where
  "EMA_update e newValue =
     (case ema_value e of
        None \<Rightarrow> (newValue, e\<lparr>ema_value := Some newValue\<rparr>)
      | Some v \<Rightarrow>
          (let v' = alpha e * newValue + (1 - alpha e) * v
           in (v', e\<lparr>ema_value := Some v'\<rparr>)))"

definition EMA_reset :: "EMA \<Rightarrow> EMA" where
  "EMA_reset e = e\<lparr>ema_value := None\<rparr>"

subsection \<open>Double arithmetic\<close>

text \<open>
  The numbers of the program are IEEE 754 doubles, and each arithmetic operation returns the
  double nearest to its exact result, the one with the even significand when two are equally
  near. A finite double is a real \<open>m * 2 ^ q\<close> with \<open>\<bar>m\<bar> < 2 ^ 53\<close> and
  \<open>- 1074 \<le> q \<le> 971\<close>. Around \<open>x\<close> the doubles are \<open>quantum x\<close> apart, and
  \<open>round64 x\<close> is the multiple of \<open>quantum x\<close> nearest to \<open>x\<close>. An operation whose
  rounded result reaches \<open>2 ^ 1024\<close> returns an infinity: \<open>None\<close> stands for a result
  that is not a finite double. NaN and the infinities are not values of the model, and the
  two zeros are one.
\<close>

definition round_even :: "real \<Rightarrow> int" where
  "round_even y =
     (let n = \<lfloor>y\<rfloor>; r = y - of_int n
      in if r < 1/2 then n else if 1/2 < r then n + 1 else if even n then n else n + 1)"

definition quantum :: "real \<Rightarrow> real" where
  "quantum x = 2 powr of_int (max (\<lfloor>log 2 \<bar>x\<bar>\<rfloor> - 52) (- 1074))"

definition round64 :: "real \<Rightarrow> real" where
  "round64 x = (if x = 0 then 0 else of_int (round_even (x / quantum x)) * quantum x)"

text \<open>The result of an operation whose exact value is \<open>x\<close>, and the finite doubles.\<close>

definition double :: "real \<Rightarrow> real option" where
  "double x = (if \<bar>round64 x\<bar> < 2 ^ 1024 then Some (round64 x) else None)"

definition isDouble :: "real \<Rightarrow> bool" where
  "isDouble x = (double x = Some x)"

text \<open>The operators \<^verbatim>\<open>+\<close>, \<^verbatim>\<open>-\<close> and \<^verbatim>\<open>*\<close> on doubles.\<close>

definition add64 :: "real \<Rightarrow> real \<Rightarrow> real option" where
  "add64 x y = double (x + y)"

definition sub64 :: "real \<Rightarrow> real \<Rightarrow> real option" where
  "sub64 x y = double (x - y)"

definition mul64 :: "real \<Rightarrow> real \<Rightarrow> real option" where
  "mul64 x y = double (x * y)"

text \<open>\<^verbatim>\<open>lerp\<close> in double arithmetic: \<^verbatim>\<open>start * (1 - t) + end * t\<close>.\<close>

definition lerp64 :: "real \<Rightarrow> real \<Rightarrow> real \<Rightarrow> real option" where
  "lerp64 start finish t =
     do {
       u \<leftarrow> sub64 1 t;
       a \<leftarrow> mul64 start u;
       b \<leftarrow> mul64 finish t;
       add64 a b
     }"

text \<open>
  The method \<^verbatim>\<open>update\<close> of the class \<^verbatim>\<open>EMA\<close> in double arithmetic, the operations in
  the order of the source: \<^verbatim>\<open>this.alpha * newValue + (1 - this.alpha) * this.value\<close>.
\<close>

definition EMA64_update :: "EMA \<Rightarrow> real \<Rightarrow> (real \<times> EMA) option" where
  "EMA64_update e newValue =
     (case ema_value e of
        None \<Rightarrow> Some (newValue, e\<lparr>ema_value := Some newValue\<rparr>)
      | Some v \<Rightarrow>
          do {
            a \<leftarrow> mul64 (alpha e) newValue;
            k \<leftarrow> sub64 1 (alpha e);
            b \<leftarrow> mul64 k v;
            v' \<leftarrow> add64 a b;
            Some (v', e\<lparr>ema_value := Some v'\<rparr>)
          })"

subsection \<open>Data model of the frame loop\<close>

datatype AppMode = BROWSE | FOCUS | AGGREGATE

text \<open>
  The interface \<^verbatim>\<open>CursorState\<close>; its fields \<^verbatim>\<open>x\<close> and \<^verbatim>\<open>y\<close> are \<open>cur_x\<close> and
  \<open>cur_y\<close> here.
\<close>

record CursorState =
  cur_x :: real
  cur_y :: real
  active :: bool
  clicking :: bool
  lastClickTime :: int

text \<open>
  One detected hand: \<^verbatim>\<open>results.landmarks[i]\<close> together with
  \<^verbatim>\<open>results.handedness[i][0].categoryName\<close>.
\<close>

record hand_obs =
  handedness :: string
  landmarks :: "point list"

text \<open>
  DOM elements are identified by numbers. Every effect of a frame on the outside world is
  appended to a log: a synthetic event handed to \<^verbatim>\<open>dispatchEvent\<close> (target, type,
  \<^verbatim>\<open>clientX\<close>, \<^verbatim>\<open>clientY\<close>, \<^verbatim>\<open>isPrimary\<close>; a field the source leaves out has the
  default of the DOM, \<open>0\<close> or \<open>False\<close>), the statement
  \<^verbatim>\<open>scrollContainer.scrollTop -= deltaY\<close>, and a call of \<^verbatim>\<open>SoundManager.play\<close>.
\<close>

type_synonym element = nat

datatype event_kind =
  mouseout | pointerout | mouseover | pointerover | pointermove
  | pointerdown | mousedown | pointerup | mouseup | click

datatype effect =
  Dispatch element event_kind real real bool
  | ScrollTopSub element real
  | PlaySound string

text \<open>
  What the frame reads from the browser: \<^verbatim>\<open>document.elementFromPoint\<close>,
  \<^verbatim>\<open>document.getElementById('month-scroll-container')\<close>, \<^verbatim>\<open>Node.contains\<close> and the
  size of the window.
\<close>

record dom_env =
  elementFromPoint :: "real \<Rightarrow> real \<Rightarrow> element option"
  scrollContainer :: "element option"
  node_contains :: "element \<Rightarrow> element \<Rightarrow> bool"
  innerWidth :: real
  innerHeight :: real

text \<open>
  The React state (\<open>mode\<close>, \<open>scrollOffset\<close>, \<open>cursor\<close>) and the refs of the component,
  with the log of effects. The state setters are called with updater functions, which
  React applies in the order of the calls: the model applies them at once.
\<close>

record app_state =
  mode :: AppMode
  scrollOffset :: real
  cursor :: CursorState
  lastLeftHandTime :: int
  leftHandX_EMA :: EMA
  leftPinchSmoother :: EMA
  leftOpenPalmSmoother :: EMA
  cursorX_EMA :: EMA
  cursorY_EMA :: EMA
  isPinchingRef :: bool
  anchorPos :: "(real \<times> real) option"
  lastCursorPos :: "real \<times> real"
  isDraggingUI :: bool
  dragTarget :: "element option"
  lastHoveredElement :: "element option"
  events :: "effect list"

text \<open>
  One call of \<^verbatim>\<open>predictWebcam\<close>: \<open>ready\<close> says that the video, the canvas, its context
  and the hand landmarker exist (the function returns at once otherwise); \<open>results\<close> is
  \<open>None\<close> when \<^verbatim>\<open>detectForVideo\<close> was skipped or threw (\<^verbatim>\<open>results\<close> is undefined).
\<close>

record frame =
  ready :: bool
  results :: "hand_obs list option"
  dateNow :: int
  document :: dom_env

subsection \<open>Constants\<close>

definition PINCH_THRESHOLD_ON :: real where
  "PINCH_THRESHOLD_ON = 0.04"

definition PINCH_THRESHOLD_OFF :: real where
  "PINCH_THRESHOLD_OFF = 0.055"

definition CURSOR_SMOOTHING :: real where
  "CURSOR_SMOOTHING = 0.5"

definition ANCHOR_STRENGTH :: real where
  "ANCHOR_STRENGTH = 0.95"

definition initialState :: app_state where
  "initialState =
     \<lparr>mode = AGGREGATE, scrollOffset = 0,
      cursor = \<lparr>cur_x = 0, cur_y = 0, active = False, clicking = False, lastClickTime = 0\<rparr>,
      lastLeftHandTime = 0,
      leftHandX_EMA = EMA_new 0.1,
      leftPinchSmoother = EMA_new 0.2,
      leftOpenPalmSmoother = EMA_new 0.2,
      cursorX_EMA = EMA_new CURSOR_SMOOTHING,
      cursorY_EMA = EMA_new CURSOR_SMOOTHING,
      isPinchingRef = False, anchorPos = None, lastCursorPos = (0, 0),
      isDraggingUI = False, dragTarget = None, lastHoveredElement = None,
      events = []\<rparr>"

subsection \<open>Reading a landmark\<close>

text \<open>
  \<^verbatim>\<open>landmarks[i]\<close> is undefined beyond the end of the array, and reading a coordinate of
  it throws a TypeError, which nothing catches: \<open>None\<close> is that exception. It leaves
  \<^verbatim>\<open>predictWebcam\<close> before the next frame is requested, so the frame loop ends there.
\<close>

definition landmark :: "point list \<Rightarrow> nat \<Rightarrow> point option" where
  "landmark lms i = (if i < length lms then Some (lms ! i) else None)"

subsection \<open>Left hand: scene control\<close>

text \<open>The updater function of the first \<^verbatim>\<open>setMode\<close> call of \<^verbatim>\<open>processLeftHand\<close>.\<close>

definition modeUpdater :: "bool \<Rightarrow> real \<Rightarrow> bool \<Rightarrow> AppMode \<Rightarrow> AppMode" where
  "modeUpdater isPinchActive pinchVal isOpenActive currentMode =
     (if isPinchActive then FOCUS
      else if currentMode = FOCUS \<and> pinchVal < 0.4
        then (if isOpenActive then BROWSE else AGGREGATE)
      else if isOpenActive then BROWSE
      else AGGREGATE)"

text \<open>The loop over \<^verbatim>\<open>tips\<close> and \<^verbatim>\<open>pips\<close>, counting the extended fingers.\<close>

fun countExtended :: "point list \<Rightarrow> point \<Rightarrow> (nat \<times> nat) list \<Rightarrow> nat \<Rightarrow> nat option" where
  "countExtended lms wrist [] extendedCount = Some extendedCount"
| "countExtended lms wrist ((tip, pip) # rest) extendedCount =
     do {
       tipPoint \<leftarrow> landmark lms tip;
       pipPoint \<leftarrow> landmark lms pip;
       let dTip = distance3D wrist tipPoint;
       let dPip = distance3D wrist pipPoint;
       countExtended lms wrist rest
         (if dTip > dPip * 1.1 then extendedCount + 1 else extendedCount)
     }"

definition processLeftHand :: "point list \<Rightarrow> app_state \<Rightarrow> app_state option" where
  "processLeftHand lms s =
     (if isDraggingUI s then Some s
      else do {
        thumbTip \<leftarrow> landmark lms 4;
        indexTip \<leftarrow> landmark lms 8;
        middleMCP \<leftarrow> landmark lms 9;
        let pinchDist = distance3D thumbTip indexTip;
        let isPinchingRaw = (if pinchDist < 0.05 then 1 else 0);
        let (pinchVal, pinchSmoother) = EMA_update (leftPinchSmoother s) isPinchingRaw;
        let isPinchActive = (pinchVal > 0.6);
        wrist \<leftarrow> landmark lms 0;
        extendedCount \<leftarrow> countExtended lms wrist [(8, 6), (12, 10), (16, 14), (20, 18)] 0;
        let isOpenRaw = (if extendedCount \<ge> 3 then 1 else 0);
        let (openVal, openSmoother) = EMA_update (leftOpenPalmSmoother s) isOpenRaw;
        let isOpenActive = (openVal > 0.6);
        let mode1 = modeUpdater isPinchActive pinchVal isOpenActive (mode s);
        let screenX = 1 - px middleMCP;
        let (smoothedX, xSmoother) = EMA_update (leftHandX_EMA s) screenX;
        let scroll1 =
          (if mode1 = BROWSE then scrollOffset s + (smoothedX - 0.5) * 0.15
           else scrollOffset s);
        Some (s\<lparr>mode := mode1, scrollOffset := scroll1,
                leftPinchSmoother := pinchSmoother,
                leftOpenPalmSmoother := openSmoother,
                leftHandX_EMA := xSmoother\<rparr>)
      })"

subsection \<open>Right hand: cursor and synthetic input\<close>

definition handleCursorInteraction ::
  "dom_env \<Rightarrow> real \<Rightarrow> real \<Rightarrow> real \<Rightarrow> bool \<Rightarrow> bool \<Rightarrow> app_state \<Rightarrow> app_state" where
  "handleCursorInteraction env x y deltaY isDown wasDown s =
     (let element = elementFromPoint env x y;
          s1 = (if element \<noteq> lastHoveredElement s
                then s\<lparr>lastHoveredElement := element,
                       events := events s
                         @ (case lastHoveredElement s of
                              Some old \<Rightarrow> [Dispatch old mouseout 0 0 False,
                                           Dispatch old pointerout 0 0 False]
                            | None \<Rightarrow> [])
                         @ (case element of
                              Some el \<Rightarrow> [Dispatch el mouseover 0 0 False,
                                          Dispatch el pointerover 0 0 False]
                            | None \<Rightarrow> [])\<rparr>
                else s);
          s2 = (case element of
                  Some el \<Rightarrow> s1\<lparr>events := events s1 @ [Dispatch el pointermove x y False]\<rparr>
                | None \<Rightarrow> s1)
      in if isDown \<and> \<not> wasDown then
           (case element of
              Some el \<Rightarrow>
                s2\<lparr>isDraggingUI := True, dragTarget := Some el,
                   events := events s2
                     @ [Dispatch el pointerdown x y True, Dispatch el mousedown x y False]\<rparr>
            | None \<Rightarrow> s2)
         else if isDown \<and> wasDown \<and> isDraggingUI s2 \<and> dragTarget s2 \<noteq> None then
           (let tgt = the (dragTarget s2);
                scroll =
                  (case scrollContainer env of
                     Some sc \<Rightarrow>
                       if sc = tgt \<or> node_contains env sc tgt then [ScrollTopSub sc deltaY]
                       else []
                   | None \<Rightarrow> [])
            in s2\<lparr>events := events s2 @ scroll @ [Dispatch tgt pointermove x y True]\<rparr>)
         else if \<not> isDown \<and> wasDown \<and> isDraggingUI s2 \<and> dragTarget s2 \<noteq> None then
           (let tgt = the (dragTarget s2)
            in s2\<lparr>isDraggingUI := False, dragTarget := None,
                  events := events s2
                    @ [Dispatch tgt pointerup x y True, Dispatch tgt mouseup x y False,
                       Dispatch tgt click x y False]\<rparr>)
         else s2)"

definition processRightHand ::
  "dom_env \<Rightarrow> int \<Rightarrow> point list \<Rightarrow> app_state \<Rightarrow> app_state option" where
  "processRightHand env t lms s =
     do {
       indexTip \<leftarrow> landmark lms 8;
       thumbTip \<leftarrow> landmark lms 4;
       let rawX = (1 - px indexTip) * innerWidth env;
       let rawY = py indexTip * innerHeight env;
       let (smoothX, xSmoother) = EMA_update (cursorX_EMA s) rawX;
       let (smoothY, ySmoother) = EMA_update (cursorY_EMA s) rawY;
       let pinchDist = distance3D thumbTip indexTip;
       let wasPinching = isPinchingRef s;
       let isPinchingNow =
         (if pinchDist < PINCH_THRESHOLD_ON then True
          else if pinchDist > PINCH_THRESHOLD_OFF then False
          else wasPinching);
       let rising = (isPinchingNow \<and> \<not> wasPinching);
       let anchor1 = (if rising then Some (smoothX, smoothY) else anchorPos s);
       let sound = (if rising then [PlaySound ''click''] else []);
       let (outputX, outputY, anchor2) =
         (if isPinchingNow \<and> anchor1 \<noteq> None
          then (lerp (fst (the anchor1)) smoothX (1 - ANCHOR_STRENGTH),
                lerp (snd (the anchor1)) smoothY (1 - ANCHOR_STRENGTH),
                anchor1)
          else (smoothX, smoothY,
                if \<not> isPinchingNow \<and> wasPinching then None else anchor1));
       let deltaY = outputY - snd (lastCursorPos s);
       let s1 = s\<lparr>cursorX_EMA := xSmoother, cursorY_EMA := ySmoother,
                  isPinchingRef := isPinchingNow, anchorPos := anchor2,
                  lastCursorPos := (outputX, outputY),
                  cursor := \<lparr>cur_x = outputX, cur_y = outputY, active = True,
                             clicking = isPinchingNow,
                             lastClickTime =
                               (if rising then t else lastClickTime (cursor s))\<rparr>,
                  events := events s @ sound\<rparr>;
       Some (handleCursorInteraction env outputX outputY deltaY isPinchingNow wasPinching s1)
     }"

text \<open>
  The right hand in double arithmetic. \<open>indexTip\<close> is \<^verbatim>\<open>landmarks[8]\<close> and \<open>pinchDist\<close>
  is the number that \<^verbatim>\<open>distance3D(thumbTip, indexTip)\<close> returns; the literals of the
  constants are the doubles nearest to them (\<^verbatim>\<open>CURSOR_SMOOTHING\<close> is the coefficient of
  the two smoothers of the state). \<open>None\<close> is a call in which an operation leaves the finite
  doubles.
\<close>

definition PINCH_THRESHOLD_ON64 :: real where
  "PINCH_THRESHOLD_ON64 = round64 0.04"

definition PINCH_THRESHOLD_OFF64 :: real where
  "PINCH_THRESHOLD_OFF64 = round64 0.055"

definition ANCHOR_STRENGTH64 :: real where
  "ANCHOR_STRENGTH64 = round64 0.95"

definition processRightHand64 ::
  "dom_env \<Rightarrow> int \<Rightarrow> point \<Rightarrow> real \<Rightarrow> app_state \<Rightarrow> app_state option" where
  "processRightHand64 env t indexTip pinchDist s =
     do {
       mirrored \<leftarrow> sub64 1 (px indexTip);
       rawX \<leftarrow> mul64 mirrored (innerWidth env);
       rawY \<leftarrow> mul64 (py indexTip) (innerHeight env);
       (smoothX, xSmoother) \<leftarrow> EMA64_update (cursorX_EMA s) rawX;
       (smoothY, ySmoother) \<leftarrow> EMA64_update (cursorY_EMA s) rawY;
       let wasPinching = isPinchingRef s;
       let isPinchingNow =
         (if pinchDist < PINCH_THRESHOLD_ON64 then True
          else if pinchDist > PINCH_THRESHOLD_OFF64 then False
          else wasPinching);
       let rising = (isPinchingNow \<and> \<not> wasPinching);
       let anchor1 = (if rising then Some (smoothX, smoothY) else anchorPos s);
       let sound = (if rising then [PlaySound ''click''] else []);
       (outputX, outputY, anchor2) \<leftarrow>
         (if isPinchingNow \<and> anchor1 \<noteq> None
          then do {
                 tx \<leftarrow> sub64 1 ANCHOR_STRENGTH64;
                 ox \<leftarrow> lerp64 (fst (the anchor1)) smoothX tx;
                 ty \<leftarrow> sub64 1 ANCHOR_STRENGTH64;
                 oy \<leftarrow> lerp64 (snd (the anchor1)) smoothY ty;
                 Some (ox, oy, anchor1)
               }
          else Some (smoothX, smoothY,
                     if \<not> isPinchingNow \<and> wasPinching then None else anchor1));
       deltaY \<leftarrow> sub64 outputY (snd (lastCursorPos s));
       let s1 = s\<lparr>cursorX_EMA := xSmoother, cursorY_EMA := ySmoother,
                  isPinchingRef := isPinchingNow, anchorPos := anchor2,
                  lastCursorPos := (outputX, outputY),
                  cursor := \<lparr>cur_x = outputX, cur_y = outputY, active = True,
                             clicking = isPinchingNow,
                             lastClickTime =
                               (if rising then t else lastClickTime (cursor s))\<rparr>,
                  events := events s @ sound\<rparr>;
       Some (handleCursorInteraction env outputX outputY deltaY isPinchingNow wasPinching s1)
     }"

subsection \<open>The frame loop\<close>

definition resetDrag :: "app_state \<Rightarrow> app_state" where
  "resetDrag s =
     (if isDraggingUI s \<and> dragTarget s \<noteq> None
      then s\<lparr>isDraggingUI := False, dragTarget := None,
             events := events s @ [Dispatch (the (dragTarget s)) pointerup 0 0 False]\<rparr>
      else s)"

text \<open>
  The loop over \<^verbatim>\<open>results.landmarks\<close>, with the flags \<^verbatim>\<open>leftHandFound\<close> and
  \<^verbatim>\<open>rightHandFound\<close>.
\<close>

fun processHands ::
  "dom_env \<Rightarrow> int \<Rightarrow> hand_obs list \<Rightarrow> bool \<Rightarrow> bool \<Rightarrow> app_state
     \<Rightarrow> (bool \<times> bool \<times> app_state) option" where
  "processHands env t [] leftHandFound rightHandFound s =
     Some (leftHandFound, rightHandFound, s)"
| "processHands env t (h # hs) leftHandFound rightHandFound s =
     (if handedness h = ''Left'' then
        (case processLeftHand (landmarks h) s of
           None \<Rightarrow> None
         | Some s' \<Rightarrow> processHands env t hs True rightHandFound s')
      else if handedness h = ''Right'' then
        (case processRightHand env t (landmarks h) s of
           None \<Rightarrow> None
         | Some s' \<Rightarrow> processHands env t hs leftHandFound True s')
      else processHands env t hs leftHandFound rightHandFound s)"

definition predictWebcam :: "app_state \<Rightarrow> frame \<Rightarrow> app_state option" where
  "predictWebcam s fr =
     (if \<not> ready fr then Some s
      else if results fr \<noteq> None \<and> the (results fr) \<noteq> [] then
        (case processHands (document fr) (dateNow fr) (the (results fr)) False False s of
           None \<Rightarrow> None
         | Some (leftHandFound, rightHandFound, s1) \<Rightarrow>
             (let s2 = (if leftHandFound then s1\<lparr>lastLeftHandTime := dateNow fr\<rparr> else s1);
                  s3 = (if \<not> leftHandFound \<and> dateNow fr - lastLeftHandTime s2 > 500
                        then s2\<lparr>mode := AGGREGATE\<rparr> else s2);
                  s4 = (if \<not> rightHandFound
                        then resetDrag
                          (s3\<lparr>cursor := (cursor s3)\<lparr>active := False, clicking := False\<rparr>\<rparr>)
                        else s3)
              in Some s4))
      else
        (let s1 = (if dateNow fr - lastLeftHandTime s > 500
                   then s\<lparr>mode := AGGREGATE\<rparr> else s)
         in Some (resetDrag (s1\<lparr>cursor := (cursor s1)\<lparr>active := False\<rparr>\<rparr>))))"

text \<open>Successive frames; a frame that throws ends the loop.\<close>

fun runFrames :: "app_state \<Rightarrow> frame list \<Rightarrow> app_state option" where
  "runFrames s [] = Some s"
| "runFrames s (fr # frs) =
     (case predictWebcam s fr of None \<Rightarrow> None | Some s' \<Rightarrow> runFrames s' frs)"

subsection \<open>Observations of a frame\<close>

text \<open>
  The hands of a frame, whether one of them carries a given label, and the contract of the
  detector: 21 landmarks for every hand.
\<close>

definition hands :: "frame \<Rightarrow> hand_obs list" where
  "hands fr = (case results fr of None \<Rightarrow> [] | Some hs \<Rightarrow> hs)"

definition observed :: "string \<Rightarrow> frame \<Rightarrow> bool" where
  "observed label fr = list_ex (\<lambda>h. handedness h = label) (hands fr)"

definition wellFormed :: "frame \<Rightarrow> bool" where
  "wellFormed fr = list_all (\<lambda>h. length (landmarks h) = 21) (hands fr)"

text \<open>The distance of thumb tip and index tip, as both hands measure it.\<close>

definition pinchDistance :: "point list \<Rightarrow> real" where
  "pinchDistance lms = distance3D (lms ! 4) (lms ! 8)"

text \<open>
  The fields that \<^verbatim>\<open>processLeftHand\<close> writes: \<open>withLeft u s\<close> is the state \<open>s\<close> with
  these fields taken from \<open>u\<close>.
\<close>

definition withLeft :: "app_state \<Rightarrow> app_state \<Rightarrow> app_state" where
  "withLeft u s =
     s\<lparr>mode := mode u, scrollOffset := scrollOffset u,
       leftPinchSmoother := leftPinchSmoother u,
       leftOpenPalmSmoother := leftOpenPalmSmoother u,
       leftHandX_EMA := leftHandX_EMA u\<rparr>"

subsection \<open>Concrete observations\<close>

text \<open>
  Hands with all landmarks on the x axis: every landmark at the origin except the thumb
  tip, at distance \<open>d\<close> of the index tip. No finger of such a hand is extended.
\<close>

definition onAxis :: "real \<Rightarrow> point" where
  "onAxis a = \<lparr>px = a, py = 0, pz = 0\<rparr>"

definition fistPoints :: "real \<Rightarrow> point list" where
  "fistPoints d = (replicate 21 (onAxis 0))[4 := onAxis d]"

definition rightHand :: "real \<Rightarrow> hand_obs" where
  "rightHand d = \<lparr>handedness = ''Right'', landmarks = fistPoints d\<rparr>"

definition leftFist :: "real \<Rightarrow> hand_obs" where
  "leftFist d = \<lparr>handedness = ''Left'', landmarks = fistPoints d\<rparr>"

text \<open>A right hand whose index tip is at \<open>a\<close> on the x axis, the thumb tip at \<open>a + d\<close>.\<close>

definition pointingPoints :: "real \<Rightarrow> real \<Rightarrow> point list" where
  "pointingPoints a d = (replicate 21 (onAxis 0))[4 := onAxis (a + d), 8 := onAxis a]"

definition rightHandAt :: "real \<Rightarrow> real \<Rightarrow> hand_obs" where
  "rightHandAt a d = \<lparr>handedness = ''Right'', landmarks = pointingPoints a d\<rparr>"

text \<open>
  A page of 1000 by 500 pixels: element 1 lies left of \<open>x = 210\<close>, element 2 between 210
  and 900, and nothing beyond; there is no scroll container.
\<close>

definition page :: dom_env where
  "page =
     \<lparr>elementFromPoint =
        (\<lambda>x y. if x < 210 then Some 1 else if x < 900 then Some 2 else None),
      scrollContainer = None,
      node_contains = (\<lambda>a b. a = b),
      innerWidth = 1000, innerHeight = 500\<rparr>"

definition frameAt :: "int \<Rightarrow> hand_obs list \<Rightarrow> frame" where
  "frameAt t hs = \<lparr>ready = True, results = Some hs, dateNow = t, document = page\<rparr>"

text \<open>
  Whether an effect is a synthetic event with \<^verbatim>\<open>isPrimary: true\<close>, and whether it is one
  of the two events of the press sequence.
\<close>

fun isPrimaryEvent :: "effect \<Rightarrow> bool" where
  "isPrimaryEvent (Dispatch tgt kind x y primary) = primary"
| "isPrimaryEvent (ScrollTopSub sc d) = False"
| "isPrimaryEvent (PlaySound name) = False"

fun isPress :: "effect \<Rightarrow> bool" where
  "isPress (Dispatch tgt kind x y primary) = (kind = pointerdown \<or> kind = mousedown)"
| "isPress (ScrollTopSub sc d) = False"
| "isPress (PlaySound name) = False"

subsection \<open>A drag on the concrete page\<close>

text \<open>
  The states of a session on the page above, starting from the initial state. The right
  hand pinches with its index tip over element 1 (\<open>afterPress\<close>) and moves on, still
  pinching, until the cursor is over element 2 (\<open>afterDrag\<close>). Then either the right hand
  opens the pinch (\<open>afterRelease\<close>), or it leaves the picture while a left hand is there
  (\<open>afterLoss\<close>), comes back still pinching (\<open>afterReturn\<close>) and opens the pinch
  (\<open>afterReturnRelease\<close>).
\<close>

definition pressEvents :: "effect list" where
  "pressEvents =
     [PlaySound ''click'', Dispatch 1 mouseover 0 0 False, Dispatch 1 pointerover 0 0 False,
      Dispatch 1 pointermove 200 0 False, Dispatch 1 pointerdown 200 0 True,
      Dispatch 1 mousedown 200 0 False]"

definition dragEvents :: "effect list" where
  "dragEvents =
     [Dispatch 1 mouseout 0 0 False, Dispatch 1 pointerout 0 0 False,
      Dispatch 2 mouseover 0 0 False, Dispatch 2 pointerover 0 0 False,
      Dispatch 2 pointermove 220 0 False, Dispatch 1 pointermove 220 0 True]"

definition afterPress :: app_state where
  "afterPress =
     initialState
       \<lparr>cursor := \<lparr>cur_x = 200, cur_y = 0, active = True, clicking = True, lastClickTime = 0\<rparr>,
        cursorX_EMA := \<lparr>alpha = 0.5, ema_value = Some 200\<rparr>,
        cursorY_EMA := \<lparr>alpha = 0.5, ema_value = Some 0\<rparr>,
        isPinchingRef := True, anchorPos := Some (200, 0), lastCursorPos := (200, 0),
        isDraggingUI := True, dragTarget := Some 1, lastHoveredElement := Some 1,
        events := pressEvents\<rparr>"

definition afterDrag :: app_state where
  "afterDrag =
     afterPress
       \<lparr>cursor := \<lparr>cur_x = 220, cur_y = 0, active = True, clicking = True, lastClickTime = 0\<rparr>,
        cursorX_EMA := \<lparr>alpha = 0.5, ema_value = Some 600\<rparr>,
        lastCursorPos := (220, 0), lastHoveredElement := Some 2,
        events := pressEvents @ dragEvents\<rparr>"

definition afterRelease :: app_state where
  "afterRelease =
     afterDrag
       \<lparr>cursor := \<lparr>cur_x = 800, cur_y = 0, active = True, clicking = False,
                   lastClickTime = 0\<rparr>,
        cursorX_EMA := \<lparr>alpha = 0.5, ema_value = Some 800\<rparr>,
        isPinchingRef := False, anchorPos := None, lastCursorPos := (800, 0),
        isDraggingUI := False, dragTarget := None,
        events := pressEvents @ dragEvents
          @ [Dispatch 2 pointermove 800 0 False, Dispatch 1 pointerup 800 0 True,
             Dispatch 1 mouseup 800 0 False, Dispatch 1 click 800 0 False]\<rparr>"

definition afterLoss :: app_state where
  "afterLoss =
     afterDrag
       \<lparr>cursor := \<lparr>cur_x = 220, cur_y = 0, active = False, clicking = False,
                   lastClickTime = 0\<rparr>,
        lastLeftHandTime := 32, isDraggingUI := False, dragTarget := None,
        events := pressEvents @ dragEvents @ [Dispatch 1 pointerup 0 0 False]\<rparr>"

definition afterReturn :: app_state where
  "afterReturn =
     afterLoss
       \<lparr>cursor := \<lparr>cur_x = 230, cur_y = 0, active = True, clicking = True, lastClickTime = 0\<rparr>,
        cursorX_EMA := \<lparr>alpha = 0.5, ema_value = Some 800\<rparr>,
        lastCursorPos := (230, 0),
        events := pressEvents @ dragEvents
          @ [Dispatch 1 pointerup 0 0 False, Dispatch 2 pointermove 230 0 False]\<rparr>"

definition afterReturnRelease :: app_state where
  "afterReturnRelease =
     afterReturn
       \<lparr>cursor := \<lparr>cur_x = 900, cur_y = 0, active = True, clicking = False,
                   lastClickTime = 0\<rparr>,
        cursorX_EMA := \<lparr>alpha = 0.5, ema_value = Some 900\<rparr>,
        isPinchingRef := False, anchorPos := None, lastCursorPos := (900, 0),
        lastHoveredElement := None,
        events := pressEvents @ dragEvents
          @ [Dispatch 1 pointerup 0 0 False, Dispatch 2 pointermove 230 0 False,
             Dispatch 2 mouseout 0 0 False, Dispatch 2 pointerout 0 0 False]\<rparr>"

section \<open>Double arithmetic\<close>

text \<open>
  Rounding to the nearest integer and to the nearest double: how to evaluate them, and the
  error of one rounding, at most \<open>\<bar>x\<bar> / 2 ^ 53 + 1 / 2 ^ 1075\<close>.
\<close>

lemma round_even_eqI:
  assumes "\<bar>y - of_int m\<bar> < 1/2 \<or> (\<bar>y - of_int m\<bar> = 1/2 \<and> even m)"
  shows "round_even y = m"
proof -
  consider (lo) "of_int m - 1/2 < y" "y < of_int m"
    | (hi) "of_int m \<le> y" "y < of_int m + 1/2"
    | (tie_up) "y = of_int m + 1/2" "even m"
    | (tie_down) "y = of_int m - 1/2" "even m"
    using assms by (auto simp: abs_if split: if_splits)
  then show ?thesis
  proof cases
    case lo
    then have "\<lfloor>y\<rfloor> = m - 1" by (intro floor_unique) simp_all
    with lo show ?thesis by (simp add: round_even_def Let_def)
  next
    case hi
    then have "\<lfloor>y\<rfloor> = m" by (intro floor_unique) simp_all
    with hi show ?thesis by (simp add: round_even_def Let_def)
  next
    case tie_up
    then have "\<lfloor>y\<rfloor> = m" by (intro floor_unique) simp_all
    with tie_up show ?thesis by (simp add: round_even_def Let_def)
  next
    case tie_down
    then have "\<lfloor>y\<rfloor> = m - 1" by (intro floor_unique) simp_all
    with tie_down show ?thesis by (simp add: round_even_def Let_def)
  qed
qed

lemma round_even_error: "\<bar>of_int (round_even y) - y\<bar> \<le> 1/2"
proof -
  define n where "n = \<lfloor>y\<rfloor>"
  have n: "of_int n \<le> y" "y < of_int n + 1" unfolding n_def by linarith+
  have "round_even y =
      (if y - of_int n < 1/2 then n else if 1/2 < y - of_int n then n + 1
       else if even n then n else n + 1)"
    by (simp add: round_even_def Let_def n_def)
  with n show ?thesis
    by (auto simp: abs_if)
qed

lemma quantum_pos: "0 < quantum x"
  by (simp add: quantum_def)

lemma round64_error_quantum: "\<bar>round64 x - x\<bar> \<le> quantum x / 2"
proof (cases "x = 0")
  case True
  then show ?thesis using quantum_pos [of 0] by (simp add: round64_def)
next
  case False
  define p where "p = quantum x"
  have p: "0 < p" by (simp add: p_def quantum_pos)
  have "round64 x - x = p * (of_int (round_even (x / p)) - x / p)"
    using False p by (simp add: round64_def p_def algebra_simps)
  then have "\<bar>round64 x - x\<bar> = p * \<bar>of_int (round_even (x / p)) - x / p\<bar>"
    using p by (simp add: abs_mult)
  also have "\<dots> \<le> p * (1/2)"
    using p round_even_error [of "x / p"] by (intro mult_left_mono) simp_all
  finally show ?thesis by (simp add: p_def)
qed

lemma quantum_le: "x \<noteq> 0 \<Longrightarrow> quantum x \<le> max (\<bar>x\<bar> / 2 ^ 52) (1 / 2 ^ 1074)"
proof -
  assume x: "x \<noteq> 0"
  define e where "e = \<lfloor>log 2 \<bar>x\<bar>\<rfloor>"
  have "2 powr of_int e \<le> \<bar>x\<bar>"
    using floor_log_eq_powr_iff [of "\<bar>x\<bar>" 2 e] x by (simp add: e_def)
  have q: "quantum x = 2 powr of_int (max (e - 52) (- 1074))"
    by (simp add: quantum_def e_def)
  show ?thesis
  proof (cases "e - 52 \<le> - 1074")
    case True
    then have "quantum x = 2 powr (- 1074)" by (simp add: q max_def)
    also have "\<dots> = 1 / 2 ^ 1074" by (simp add: powr_neg_numeral)
    finally show ?thesis by simp
  next
    case False
    then have "quantum x = 2 powr (of_int e - 52)" by (simp add: q max_def)
    also have "\<dots> = 2 powr of_int e / 2 ^ 52" by (simp add: powr_diff)
    also have "\<dots> \<le> \<bar>x\<bar> / 2 ^ 52"
      using \<open>2 powr of_int e \<le> \<bar>x\<bar>\<close> by (simp add: divide_right_mono)
    finally show ?thesis by simp
  qed
qed

lemma round64_error: "\<bar>round64 x - x\<bar> \<le> \<bar>x\<bar> / 2 ^ 53 + 1 / 2 ^ 1075"
proof (cases "x = 0")
  case True
  then show ?thesis by (simp add: round64_def)
next
  case False
  have "\<bar>round64 x - x\<bar> \<le> quantum x / 2" by (rule round64_error_quantum)
  also have "\<dots> \<le> max (\<bar>x\<bar> / 2 ^ 52) (1 / 2 ^ 1074) / 2"
    using quantum_le [OF False] by simp
  also have "\<dots> \<le> \<bar>x\<bar> / 2 ^ 53 + 1 / 2 ^ 1075"
    by (simp add: max_def)
  finally show ?thesis .
qed


lemma quantum_eqI:
  assumes "2 powr of_int k \<le> \<bar>x\<bar>" and "\<bar>x\<bar> < 2 powr of_int (k + 1)"
  shows "quantum x = 2 powr of_int (max (k - 52) (- 1074))"
proof -
  have "0 < 2 powr real_of_int k" by simp
  with assms(1) have "0 < \<bar>x\<bar>" by linarith
  then have "\<lfloor>log 2 \<bar>x\<bar>\<rfloor> = k"
    using floor_log_eq_powr_iff [of "\<bar>x\<bar>" 2 k] assms by simp
  then show ?thesis by (simp add: quantum_def)
qed

lemma round64_eqI:
  assumes "2 powr of_int k \<le> \<bar>x\<bar>" and "\<bar>x\<bar> < 2 powr of_int (k + 1)"
    and "p = 2 powr of_int (max (k - 52) (- 1074))"
    and "\<bar>x - of_int m * p\<bar> < p / 2 \<or> (\<bar>x - of_int m * p\<bar> = p / 2 \<and> even m)"
    and "y = of_int m * p"
  shows "round64 x = y"
proof -
  have "0 < 2 powr real_of_int k" by simp
  with assms(1) have x: "x \<noteq> 0" by linarith
  have q: "quantum x = p" using quantum_eqI [OF assms(1,2)] assms(3) by simp
  have p: "0 < p" using assms(3) by simp
  have "x / p - of_int m = (x - of_int m * p) / p" using p by (simp add: field_simps)
  then have "\<bar>x / p - of_int m\<bar> = \<bar>x - of_int m * p\<bar> / p" using p by simp
  with assms(4) p have "\<bar>x / p - of_int m\<bar> < 1/2 \<or> (\<bar>x / p - of_int m\<bar> = 1/2 \<and> even m)"
    by (auto simp: field_simps)
  then have "round_even (x / p) = m" by (rule round_even_eqI)
  with x q assms(5) show ?thesis by (simp add: round64_def)
qed

lemma round64_0 [simp]: "round64 0 = 0"
  by (simp add: round64_def)

lemma double_0 [simp]: "double 0 = Some 0"
  by (simp add: double_def)

lemma round64_abs_le: "\<bar>round64 x\<bar> \<le> \<bar>x\<bar> + \<bar>x\<bar> / 2 ^ 53 + 1 / 2 ^ 1075"
  using round64_error [of x] by linarith

lemma double_bounded:
  assumes "\<bar>x\<bar> \<le> 2 ^ 1023 + 1"
  shows "double x = Some (round64 x)"
proof -
  have "\<bar>round64 x\<bar> \<le> \<bar>x\<bar> + \<bar>x\<bar> / 2 ^ 53 + 1 / 2 ^ 1075" by (rule round64_abs_le)
  also have "\<dots> \<le> (2 ^ 1023 + 1) + (2 ^ 1023 + 1) / 2 ^ 53 + 1 / 2 ^ 1075"
    using assms by (intro add_mono divide_right_mono) simp_all
  also have "\<dots> < (2::real) ^ 1024" by simp
  finally show ?thesis by (simp add: double_def)
qed

lemma double_Some: "double x = Some y \<Longrightarrow> y = round64 x"
  by (simp add: double_def split: if_splits)

lemma round64_error_le:
  assumes "\<bar>x\<bar> \<le> M"
  shows "\<bar>round64 x - x\<bar> \<le> M / 2 ^ 53 + 1 / 2 ^ 1075"
proof -
  have "\<bar>x\<bar> / 2 ^ 53 \<le> M / 2 ^ 53" using assms by (intro divide_right_mono) simp_all
  with round64_error [of x] show ?thesis by linarith
qed

lemma blend64_error:
  fixes a x v M :: real
  assumes a: "0 \<le> a" "a \<le> 1" and x: "\<bar>x\<bar> \<le> M" and v: "\<bar>v\<bar> \<le> M"
  shows "\<bar>round64 (round64 (a * x) + round64 (round64 (1 - a) * v))
           - (a * x + (1 - a) * v)\<bar> \<le> M / 2 ^ 50 + 1 / 2 ^ 1073"
proof -
  define k where "k = round64 (1 - a)"
  define p where "p = round64 (a * x)"
  define q where "q = round64 (k * v)"
  define y where "y = round64 (p + q)"
  define e where "e = a * x + (1 - a) * v"
  define u :: real where "u = 1 / 2 ^ 53"
  define h :: real where "h = 1 / 2 ^ 1075"
  have uh: "0 < h" "h \<le> u" "u \<le> 1 / 8" by (simp_all add: u_def h_def)
  have M: "0 \<le> M" using x by linarith
  have "\<bar>1 - a\<bar> \<le> 1" using a by simp
  from round64_error_le [OF this] have k1: "\<bar>k - (1 - a)\<bar> \<le> u + h"
    by (simp add: k_def u_def h_def)
  with uh a have k2: "\<bar>k\<bar> \<le> 2" by linarith
  have "\<bar>a * x\<bar> = a * \<bar>x\<bar>" using a by (simp add: abs_mult)
  also have "\<dots> \<le> a * M" using a x by (intro mult_left_mono) simp_all
  finally have ax: "\<bar>a * x\<bar> \<le> a * M" .
  have "a * M \<le> 1 * M" using a M by (intro mult_right_mono) simp_all
  with ax have ax1: "\<bar>a * x\<bar> \<le> M" by simp
  from round64_error_le [OF ax1] have p1: "\<bar>p - a * x\<bar> \<le> M * u + h"
    by (simp add: p_def u_def h_def)
  have "\<bar>k * v\<bar> = \<bar>k\<bar> * \<bar>v\<bar>" by (simp add: abs_mult)
  also have "\<dots> \<le> 2 * M" using k2 v M by (intro mult_mono) simp_all
  finally have kv: "\<bar>k * v\<bar> \<le> 2 * M" .
  from round64_error_le [OF kv] have q1: "\<bar>q - k * v\<bar> \<le> 2 * (M * u) + h"
    by (simp add: q_def u_def h_def)
  have "\<bar>k * v - (1 - a) * v\<bar> = \<bar>k - (1 - a)\<bar> * \<bar>v\<bar>"
    by (simp add: abs_mult [symmetric] algebra_simps)
  also have "\<dots> \<le> (u + h) * M" using k1 v M by (intro mult_mono) simp_all
  also have "\<dots> \<le> (u + u) * M" using uh M by (intro mult_right_mono) simp_all
  finally have kv1: "\<bar>k * v - (1 - a) * v\<bar> \<le> 2 * (M * u)" by (simp add: algebra_simps)
  have "\<bar>(1 - a) * v\<bar> = (1 - a) * \<bar>v\<bar>" using a by (simp add: abs_mult)
  also have "\<dots> \<le> (1 - a) * M" using a v by (intro mult_left_mono) simp_all
  finally have av: "\<bar>(1 - a) * v\<bar> \<le> (1 - a) * M" .
  have "\<bar>e\<bar> \<le> \<bar>a * x\<bar> + \<bar>(1 - a) * v\<bar>" unfolding e_def by (rule abs_triangle_ineq)
  also have "\<dots> \<le> a * M + (1 - a) * M" using ax av by (rule add_mono)
  also have "\<dots> = M" by (simp add: algebra_simps)
  finally have e: "\<bar>e\<bar> \<le> M" .
  have Mu: "0 \<le> M * u" using M uh by simp
  have se: "\<bar>p + q - e\<bar> \<le> 5 * (M * u) + 2 * h"
    using p1 q1 kv1 unfolding e_def by linarith
  have "M * u \<le> M * (1 / 8)" using uh M by (intro mult_left_mono) simp_all
  with se e uh have s: "\<bar>p + q\<bar> \<le> 2 * M + 2 * h" by linarith
  from round64_error_le [OF s] have "\<bar>y - (p + q)\<bar> \<le> (2 * M + 2 * h) * u + h"
    by (simp add: y_def u_def h_def)
  also have "\<dots> = 2 * (M * u) + 2 * (h * u) + h" by (simp add: algebra_simps)
  also have "2 * (h * u) \<le> 2 * (h * (1 / 8))"
    using uh by (intro mult_left_mono) simp_all
  finally have y1: "\<bar>y - (p + q)\<bar> \<le> 2 * (M * u) + 2 * h" using uh by simp
  from se y1 Mu uh have "\<bar>y - e\<bar> \<le> 8 * (M * u) + 4 * h" by linarith
  then show ?thesis by (simp add: y_def p_def q_def k_def e_def u_def h_def)
qed


lemma blend64_finite:
  fixes a x v :: real
  assumes a: "0 \<le> a" "a \<le> 1" and x: "\<bar>x\<bar> \<le> 2 ^ 1022" and v: "\<bar>v\<bar> \<le> 2 ^ 1022"
  shows "mul64 a x = Some (round64 (a * x))"
    and "sub64 1 a = Some (round64 (1 - a))"
    and "mul64 (round64 (1 - a)) v = Some (round64 (round64 (1 - a) * v))"
    and "add64 (round64 (a * x)) (round64 (round64 (1 - a) * v)) =
           Some (round64 (round64 (a * x) + round64 (round64 (1 - a) * v)))"
proof -
  define M :: real where "M = 2 ^ 1022"
  define k where "k = round64 (1 - a)"
  have M: "0 \<le> M" "2 * M \<le> 2 ^ 1023" by (simp_all add: M_def)
  have "\<bar>a * x\<bar> = a * \<bar>x\<bar>" using a by (simp add: abs_mult)
  also have "\<dots> \<le> 1 * M" using a x unfolding M_def by (intro mult_mono) simp_all
  finally have ax: "\<bar>a * x\<bar> \<le> M" by simp
  with M show "mul64 a x = Some (round64 (a * x))"
    unfolding mul64_def by (intro double_bounded) linarith
  have one: "\<bar>1 - a\<bar> \<le> 1" using a by simp
  then show "sub64 1 a = Some (round64 (1 - a))"
    unfolding sub64_def by (intro double_bounded) simp
  from round64_error_le [OF one] have "\<bar>k - (1 - a)\<bar> \<le> 1 / 2 ^ 53 + 1 / 2 ^ 1075"
    by (simp add: k_def)
  also have "\<dots> \<le> 1" by simp
  finally have k2: "\<bar>k\<bar> \<le> 2" using a by linarith
  have "\<bar>k * v\<bar> = \<bar>k\<bar> * \<bar>v\<bar>" by (simp add: abs_mult)
  also have "\<dots> \<le> 2 * M" using k2 v unfolding M_def by (intro mult_mono) simp_all
  finally have kv: "\<bar>k * v\<bar> \<le> 2 * M" .
  with M show "mul64 (round64 (1 - a)) v = Some (round64 (round64 (1 - a) * v))"
    unfolding mul64_def k_def [symmetric] by (intro double_bounded) linarith
  have "\<bar>round64 (a * x) + round64 (k * v) - (a * x + (1 - a) * v)\<bar> \<le> M"
  proof -
    have p1: "\<bar>round64 (a * x) - a * x\<bar> \<le> M / 2 ^ 53 + 1 / 2 ^ 1075"
      by (rule round64_error_le [OF ax])
    have q1: "\<bar>round64 (k * v) - k * v\<bar> \<le> 2 * M / 2 ^ 53 + 1 / 2 ^ 1075"
      by (rule round64_error_le [OF kv])
    have "\<bar>k * v - (1 - a) * v\<bar> = \<bar>k - (1 - a)\<bar> * \<bar>v\<bar>"
      by (simp add: abs_mult [symmetric] algebra_simps)
    also have "\<dots> \<le> (1 / 2 ^ 53 + 1 / 2 ^ 1075) * M"
      using \<open>\<bar>k - (1 - a)\<bar> \<le> 1 / 2 ^ 53 + 1 / 2 ^ 1075\<close> v unfolding M_def
      by (intro mult_mono) simp_all
    finally have kv1: "\<bar>k * v - (1 - a) * v\<bar> \<le> (1 / 2 ^ 53 + 1 / 2 ^ 1075) * M" .
    have "M / 2 ^ 53 + 1 / 2 ^ 1075 + (2 * M / 2 ^ 53 + 1 / 2 ^ 1075)
        + (1 / 2 ^ 53 + 1 / 2 ^ 1075) * M \<le> M"
      by (simp add: M_def)
    with p1 q1 kv1 show ?thesis by linarith
  qed
  moreover have "\<bar>a * x + (1 - a) * v\<bar> \<le> M"
  proof -
    have "\<bar>(1 - a) * v\<bar> = (1 - a) * \<bar>v\<bar>" using a by (simp add: abs_mult)
    also have "\<dots> \<le> (1 - a) * M" using a v unfolding M_def by (intro mult_left_mono) simp_all
    finally have av: "\<bar>(1 - a) * v\<bar> \<le> (1 - a) * M" .
    have "\<bar>a * x\<bar> = a * \<bar>x\<bar>" using a by (simp add: abs_mult)
    also have "\<dots> \<le> a * M" using a x unfolding M_def by (intro mult_left_mono) simp_all
    finally have "\<bar>a * x\<bar> \<le> a * M" .
    then have "\<bar>a * x\<bar> + \<bar>(1 - a) * v\<bar> \<le> a * M + (1 - a) * M" using av by (rule add_mono)
    also have "\<dots> = M" by (simp add: algebra_simps)
    finally show ?thesis using abs_triangle_ineq [of "a * x" "(1 - a) * v"] by linarith
  qed
  ultimately have "\<bar>round64 (a * x) + round64 (k * v)\<bar> \<le> 2 * M" by linarith
  with M show "add64 (round64 (a * x)) (round64 (round64 (1 - a) * v)) =
           Some (round64 (round64 (a * x) + round64 (round64 (1 - a) * v)))"
    unfolding add64_def k_def [symmetric] by (intro double_bounded) linarith
qed

lemma isDouble_round64: "isDouble x \<Longrightarrow> round64 x = x"
  by (simp add: isDouble_def double_def split: if_splits)

lemma double_isDouble: "isDouble x \<Longrightarrow> double x = Some x"
  by (simp add: isDouble_def)

lemma double_eqI:
  assumes "2 powr of_int k \<le> \<bar>x\<bar>" and "\<bar>x\<bar> < 2 powr of_int (k + 1)"
    and "p = 2 powr of_int (max (k - 52) (- 1074))"
    and "\<bar>x - of_int m * p\<bar> < p / 2 \<or> (\<bar>x - of_int m * p\<bar> = p / 2 \<and> even m)"
    and "y = of_int m * p" and "\<bar>y\<bar> < 2 ^ 1024"
  shows "double x = Some y"
  using round64_eqI [OF assms(1-5)] assms(6) by (simp add: double_def)

section \<open>Properties of the smoother\<close>

lemma EMA_update_fresh:
  "ema_value e = None \<Longrightarrow> EMA_update e a = (a, e\<lparr>ema_value := Some a\<rparr>)"
  by (simp add: EMA_update_def)

lemma EMA_update_later:
  "ema_value e = Some v \<Longrightarrow>
     EMA_update e a =
       (alpha e * a + (1 - alpha e) * v, e\<lparr>ema_value := Some (alpha e * a + (1 - alpha e) * v)\<rparr>)"
  by (simp add: EMA_update_def Let_def)

lemma EMA_update_stores: "ema_value (snd (EMA_update e a)) = Some (fst (EMA_update e a))"
  by (cases "ema_value e") (simp_all add: EMA_update_def Let_def)

lemma EMA_update_alpha: "alpha (snd (EMA_update e a)) = alpha e"
  by (cases "ema_value e") (simp_all add: EMA_update_def Let_def)

text \<open>
  C9, as the code has it, in double arithmetic. For an EMA whose coefficient lies in
  \<open>(0, 1]\<close>: the first update after construction or after a reset returns its input and
  stores it; with coefficient \<open>1\<close> every update with a double returns and stores its input;
  an update with \<open>x\<close> of an instance holding \<open>v\<close>, both of magnitude \<open>2 ^ 1022\<close> at most,
  returns and stores the double \<open>round64 (round64 (alpha * x) + round64 (round64 (1 - alpha) * v))\<close>,
  which differs from \<open>alpha * x + (1 - alpha) * v\<close> by \<open>max \<bar>x\<bar> \<bar>v\<bar> / 2 ^ 50 + 1 / 2 ^ 1073\<close>
  at most, and therefore from the input \<open>x\<close> by \<open>(1 - alpha) * \<bar>v - x\<bar>\<close> and that error at
  most. This last bound is all that holds of a constant input: the outputs need neither reach
  the constant nor come closer to it.
\<close>

theorem EMA_contract:
  assumes "0 < alpha e" and "alpha e \<le> 1"
  shows "EMA64_update (EMA_new (alpha e)) x = Some (x, \<lparr>alpha = alpha e, ema_value = Some x\<rparr>)
     \<and> EMA64_update (EMA_reset e) x = Some (x, e\<lparr>ema_value := Some x\<rparr>)
     \<and> (isDouble x \<longrightarrow>
          EMA64_update (e\<lparr>alpha := 1\<rparr>) x = Some (x, e\<lparr>alpha := 1, ema_value := Some x\<rparr>))
     \<and> (\<bar>x\<bar> \<le> 2 ^ 1022 \<and> \<bar>v\<bar> \<le> 2 ^ 1022 \<longrightarrow>
          (\<exists>y. EMA64_update (e\<lparr>ema_value := Some v\<rparr>) x = Some (y, e\<lparr>ema_value := Some y\<rparr>)
             \<and> y = round64 (round64 (alpha e * x) + round64 (round64 (1 - alpha e) * v))
             \<and> \<bar>y - (alpha e * x + (1 - alpha e) * v)\<bar>
                 \<le> max \<bar>x\<bar> \<bar>v\<bar> / 2 ^ 50 + 1 / 2 ^ 1073
             \<and> \<bar>y - x\<bar> \<le> (1 - alpha e) * \<bar>v - x\<bar> + max \<bar>x\<bar> \<bar>v\<bar> / 2 ^ 50 + 1 / 2 ^ 1073))"
proof (intro conjI impI)
  show "EMA64_update (EMA_new (alpha e)) x = Some (x, \<lparr>alpha = alpha e, ema_value = Some x\<rparr>)"
    by (simp add: EMA_new_def EMA64_update_def)
  show "EMA64_update (EMA_reset e) x = Some (x, e\<lparr>ema_value := Some x\<rparr>)"
    by (simp add: EMA_reset_def EMA64_update_def)
next
  assume "isDouble x"
  then have "double x = Some x" by (rule double_isDouble)
  then show "EMA64_update (e\<lparr>alpha := 1\<rparr>) x = Some (x, e\<lparr>alpha := 1, ema_value := Some x\<rparr>)"
    by (cases "ema_value e") (simp_all add: EMA64_update_def mul64_def sub64_def add64_def)
next
  assume b: "\<bar>x\<bar> \<le> 2 ^ 1022 \<and> \<bar>v\<bar> \<le> 2 ^ 1022"
  define y where "y = round64 (round64 (alpha e * x) + round64 (round64 (1 - alpha e) * v))"
  from assms have a: "0 \<le> alpha e" "alpha e \<le> 1" by simp_all
  from b have x: "\<bar>x\<bar> \<le> 2 ^ 1022" and v: "\<bar>v\<bar> \<le> 2 ^ 1022" by simp_all
  note fin = blend64_finite [OF a x v]
  have upd: "EMA64_update (e\<lparr>ema_value := Some v\<rparr>) x = Some (y, e\<lparr>ema_value := Some y\<rparr>)"
    by (simp add: EMA64_update_def fin y_def)
  have err: "\<bar>y - (alpha e * x + (1 - alpha e) * v)\<bar> \<le> max \<bar>x\<bar> \<bar>v\<bar> / 2 ^ 50 + 1 / 2 ^ 1073"
    unfolding y_def by (rule blend64_error [OF a]) simp_all
  have "alpha e * x + (1 - alpha e) * v - x = (1 - alpha e) * (v - x)"
    by (simp add: algebra_simps)
  then have "\<bar>alpha e * x + (1 - alpha e) * v - x\<bar> = (1 - alpha e) * \<bar>v - x\<bar>"
    using a by (simp add: abs_mult)
  with err have step: "\<bar>y - x\<bar>
      \<le> (1 - alpha e) * \<bar>v - x\<bar> + max \<bar>x\<bar> \<bar>v\<bar> / 2 ^ 50 + 1 / 2 ^ 1073"
    by linarith
  from upd err step
  show "\<exists>y. EMA64_update (e\<lparr>ema_value := Some v\<rparr>) x = Some (y, e\<lparr>ema_value := Some y\<rparr>)
             \<and> y = round64 (round64 (alpha e * x) + round64 (round64 (1 - alpha e) * v))
             \<and> \<bar>y - (alpha e * x + (1 - alpha e) * v)\<bar>
                 \<le> max \<bar>x\<bar> \<bar>v\<bar> / 2 ^ 50 + 1 / 2 ^ 1073
             \<and> \<bar>y - x\<bar> \<le> (1 - alpha e) * \<bar>v - x\<bar> + max \<bar>x\<bar> \<bar>v\<bar> / 2 ^ 50 + 1 / 2 ^ 1073"
    unfolding y_def by blast
qed

theorem EMA_contract_witness:
  "(0::real) < alpha \<lparr>alpha = 1/2, ema_value = Some 200\<rparr>
   \<and> alpha \<lparr>alpha = 1/2, ema_value = Some 200\<rparr> \<le> 1
   \<and> isDouble 500 \<and> \<bar>500::real\<bar> \<le> 2 ^ 1022 \<and> \<bar>200::real\<bar> \<le> 2 ^ 1022
   \<and> EMA64_update (EMA_new (1/2)) 500 = Some (500, \<lparr>alpha = 1/2, ema_value = Some 500\<rparr>)
   \<and> EMA64_update \<lparr>alpha = 1, ema_value = Some 200\<rparr> 500
       = Some (500, \<lparr>alpha = 1, ema_value = Some 500\<rparr>)
   \<and> EMA64_update \<lparr>alpha = 1/2, ema_value = Some 200\<rparr> 500
       = Some (350, \<lparr>alpha = 1/2, ema_value = Some 350\<rparr>)"
proof -
  have d: "isDouble 500"
    unfolding isDouble_def
    by (rule double_eqI [where k = 8 and m = 8796093022208000 and p = "1 / 2 ^ 44"])
      (simp_all add: powr_neg_numeral)
  have r1: "round64 250 = 250"
    by (rule round64_eqI [where k = 7 and m = 8796093022208000 and p = "1 / 2 ^ 45"])
      (simp_all add: powr_neg_numeral)
  have r2: "round64 (1/2) = 1/2"
    by (rule round64_eqI [where k = "- 1" and m = 4503599627370496 and p = "1 / 2 ^ 53"])
      (simp_all add: powr_neg_numeral)
  have r3: "round64 100 = 100"
    by (rule round64_eqI [where k = 6 and m = 7036874417766400 and p = "1 / 2 ^ 46"])
      (simp_all add: powr_neg_numeral)
  have r4: "round64 350 = 350"
    by (rule round64_eqI [where k = 8 and m = 6157265115545600 and p = "1 / 2 ^ 44"])
      (simp_all add: powr_neg_numeral)
  from d EMA_contract [of "\<lparr>alpha = 1/2, ema_value = Some 200\<rparr>" 500 200]
  show ?thesis by (simp add: EMA_new_def r1 r2 r3 r4)
qed

text \<open>
  C9 as stated fails for the constant input \<open>0.3\<close> and the coefficient \<open>0.1\<close> (the doubles
  of these literals): a new instance returns the input, the second update returns
  \<open>0.30000000000000004\<close>, another double, and so does every update after it. The outputs move
  away from the constant and stay away from it.
\<close>

lemma literal_01: "round64 0.1 = 3602879701896397 / 2 ^ 55"
  by (rule round64_eqI [where k = "- 4" and m = 7205759403792794 and p = "1 / 2 ^ 56"]) (simp_all add: powr_neg_numeral)

lemma literal_03: "round64 0.3 = 5404319552844595 / 2 ^ 54"
  by (rule round64_eqI [where k = "- 2" and m = 5404319552844595 and p = "1 / 2 ^ 54"]) (simp_all add: powr_neg_numeral)

theorem EMA_contract_counterexample:
  "EMA64_update (EMA_new (round64 0.1)) (round64 0.3)
     = Some (round64 0.3, \<lparr>alpha = round64 0.1, ema_value = Some (round64 0.3)\<rparr>)
   \<and> EMA64_update \<lparr>alpha = round64 0.1, ema_value = Some (round64 0.3)\<rparr> (round64 0.3)
     = Some (1351079888211149 / 2 ^ 52, \<lparr>alpha = round64 0.1, ema_value = Some (1351079888211149 / 2 ^ 52)\<rparr>)
   \<and> EMA64_update \<lparr>alpha = round64 0.1, ema_value = Some (1351079888211149 / 2 ^ 52)\<rparr> (round64 0.3)
     = Some (1351079888211149 / 2 ^ 52, \<lparr>alpha = round64 0.1, ema_value = Some (1351079888211149 / 2 ^ 52)\<rparr>)
   \<and> round64 0.3 \<noteq> 1351079888211149 / 2 ^ 52"
proof -
  have a: "mul64 (3602879701896397 / 2 ^ 55) (5404319552844595 / 2 ^ 54) = Some (1080863910568919 / 2 ^ 55)"
    unfolding mul64_def by (rule double_eqI [where k = "- 6" and m = 8646911284551352 and p = "1 / 2 ^ 58"]) (simp_all add: powr_neg_numeral)
  have k: "sub64 1 (3602879701896397 / 2 ^ 55) = Some (8106479329266893 / 2 ^ 53)"
    unfolding sub64_def by (rule double_eqI [where k = "- 1" and m = 8106479329266893 and p = "1 / 2 ^ 53"]) (simp_all add: powr_neg_numeral)
  have b: "mul64 (8106479329266893 / 2 ^ 53) (5404319552844595 / 2 ^ 54) = Some (607985949695017 / 2 ^ 51)"
    unfolding mul64_def by (rule double_eqI [where k = "- 2" and m = 4863887597560136 and p = "1 / 2 ^ 54"]) (simp_all add: powr_neg_numeral)
  have s: "add64 (1080863910568919 / 2 ^ 55) (607985949695017 / 2 ^ 51) = Some (1351079888211149 / 2 ^ 52)"
    unfolding add64_def by (rule double_eqI [where k = "- 2" and m = 5404319552844596 and p = "1 / 2 ^ 54"]) (simp_all add: powr_neg_numeral)
  have b2: "mul64 (8106479329266893 / 2 ^ 53) (1351079888211149 / 2 ^ 52) = Some (4863887597560137 / 2 ^ 54)"
    unfolding mul64_def by (rule double_eqI [where k = "- 2" and m = 4863887597560137 and p = "1 / 2 ^ 54"]) (simp_all add: powr_neg_numeral)
  have s2: "add64 (1080863910568919 / 2 ^ 55) (4863887597560137 / 2 ^ 54) = Some (1351079888211149 / 2 ^ 52)"
    unfolding add64_def by (rule double_eqI [where k = "- 2" and m = 5404319552844596 and p = "1 / 2 ^ 54"]) (simp_all add: powr_neg_numeral)
  show ?thesis
    unfolding literal_01 literal_03 using a k b s b2 s2
    by (simp add: EMA64_update_def EMA_new_def)
qed

section \<open>Evaluating the concrete observations\<close>

lemma distance3D_axis: "distance3D (onAxis a) (onAxis b) = \<bar>a - b\<bar>"
  by (simp add: distance3D_def onAxis_def)

lemma fistPoints_length [simp]: "length (fistPoints d) = 21"
  by (simp add: fistPoints_def)

lemma fistPoints_nth:
  "i < 21 \<Longrightarrow> fistPoints d ! i = (if i = 4 then onAxis d else onAxis 0)"
  by (simp add: fistPoints_def nth_list_update)

lemma pinchDistance_fist [simp]: "pinchDistance (fistPoints d) = \<bar>d\<bar>"
  by (simp add: pinchDistance_def fistPoints_nth distance3D_axis)

section \<open>What the dispatcher leaves alone\<close>

lemma hci_fields [simp]:
  "mode (handleCursorInteraction env x y d a b s) = mode s"
  "scrollOffset (handleCursorInteraction env x y d a b s) = scrollOffset s"
  "cursor (handleCursorInteraction env x y d a b s) = cursor s"
  "lastLeftHandTime (handleCursorInteraction env x y d a b s) = lastLeftHandTime s"
  "leftHandX_EMA (handleCursorInteraction env x y d a b s) = leftHandX_EMA s"
  "leftPinchSmoother (handleCursorInteraction env x y d a b s) = leftPinchSmoother s"
  "leftOpenPalmSmoother (handleCursorInteraction env x y d a b s) = leftOpenPalmSmoother s"
  "cursorX_EMA (handleCursorInteraction env x y d a b s) = cursorX_EMA s"
  "cursorY_EMA (handleCursorInteraction env x y d a b s) = cursorY_EMA s"
  "isPinchingRef (handleCursorInteraction env x y d a b s) = isPinchingRef s"
  "anchorPos (handleCursorInteraction env x y d a b s) = anchorPos s"
  "lastCursorPos (handleCursorInteraction env x y d a b s) = lastCursorPos s"
  by (simp_all add: handleCursorInteraction_def Let_def split: option.splits)

lemma resetDrag_fields [simp]:
  "mode (resetDrag s) = mode s"
  "scrollOffset (resetDrag s) = scrollOffset s"
  "cursor (resetDrag s) = cursor s"
  "lastLeftHandTime (resetDrag s) = lastLeftHandTime s"
  "isPinchingRef (resetDrag s) = isPinchingRef s"
  "anchorPos (resetDrag s) = anchorPos s"
  "lastCursorPos (resetDrag s) = lastCursorPos s"
  by (simp_all add: resetDrag_def)

section \<open>Totality on well-formed hands\<close>

lemma countExtended_total:
  "\<forall>(tip, pip) \<in> set fingers. tip < length lms \<and> pip < length lms \<Longrightarrow>
     \<exists>k. countExtended lms wrist fingers n = Some k"
  by (induction fingers arbitrary: n) (auto simp: landmark_def Let_def)

lemma processLeftHand_total:
  assumes "20 < length lms"
  shows "\<exists>s'. processLeftHand lms s = Some s'"
proof -
  obtain k where
    k: "countExtended lms (lms ! 0) [(8, 6), (12, 10), (16, 14), (20, 18)] 0 = Some k"
    using countExtended_total [of "[(8, 6), (12, 10), (16, 14), (20, 18)]" lms "lms ! 0" 0] assms
    by auto
  from assms have "0 < length lms" by linarith
  with assms have "landmark lms 4 = Some (lms ! 4)" "landmark lms 8 = Some (lms ! 8)"
    "landmark lms 9 = Some (lms ! 9)" "landmark lms 0 = Some (lms ! 0)"
    by (simp_all only: landmark_def if_True) simp_all
  with k show ?thesis
    by (simp add: processLeftHand_def Let_def split_def del: countExtended.simps)
qed

lemma processRightHand_total:
  "8 < length lms \<Longrightarrow> \<exists>s'. processRightHand env t lms s = Some s'"
  by (simp add: processRightHand_def landmark_def Let_def split_def)

lemma processHands_total:
  "list_all (\<lambda>h. length (landmarks h) = 21) hs \<Longrightarrow>
     \<exists>l' r' s'. processHands env t hs l r s = Some (l', r', s')"
proof (induction hs arbitrary: l r s)
  case Nil
  then show ?case by simp
next
  case (Cons h hs)
  then have len: "length (landmarks h) = 21"
    and rest: "list_all (\<lambda>h. length (landmarks h) = 21) hs" by simp_all
  obtain sl where sl: "processLeftHand (landmarks h) s = Some sl"
    using processLeftHand_total [of "landmarks h" s] len by auto
  obtain sr where sr: "processRightHand env t (landmarks h) s = Some sr"
    using processRightHand_total [of "landmarks h" env t s] len by auto
  show ?case
    using Cons.IH [OF rest] sl sr by simp
qed

lemma predictWebcam_total:
  assumes "wellFormed fr"
  shows "\<exists>s'. predictWebcam s fr = Some s'"
proof (cases "ready fr \<and> results fr \<noteq> None \<and> the (results fr) \<noteq> []")
  case False
  then show ?thesis by (auto simp: predictWebcam_def Let_def)
next
  case True
  then obtain hs where hs: "results fr = Some hs" by auto
  with assms have "list_all (\<lambda>h. length (landmarks h) = 21) hs"
    by (simp add: wellFormed_def hands_def)
  then obtain l' r' s' where
    "processHands (document fr) (dateNow fr) hs False False s = Some (l', r', s')"
    using processHands_total by blast
  with True hs show ?thesis by (simp add: predictWebcam_def Let_def)
qed

lemma runFrames_total:
  "list_all wellFormed frs \<Longrightarrow> \<exists>s'. runFrames s frs = Some s'"
proof (induction frs arbitrary: s)
  case Nil
  then show ?case by simp
next
  case (Cons fr frs)
  then obtain s1 where "predictWebcam s fr = Some s1"
    using predictWebcam_total [of fr s] by auto
  with Cons show ?case by simp
qed

section \<open>The debounced pinch state\<close>

lemma processLeftHand_cases:
  assumes "processLeftHand lms s = Some s'"
  shows "s' = s \<or> (\<exists>m sc e1 e2 e3. s' = s\<lparr>mode := m, scrollOffset := sc,
                leftPinchSmoother := e1, leftOpenPalmSmoother := e2, leftHandX_EMA := e3\<rparr>)"
proof (cases "isDraggingUI s")
  case True
  with assms show ?thesis by (simp add: processLeftHand_def)
next
  case False
  with assms show ?thesis
    unfolding processLeftHand_def
    by (simp add: Let_def split_def del: countExtended.simps split: Option.bind_splits) blast
qed

lemma processLeftHand_right_fields:
  assumes "processLeftHand lms s = Some s'"
  shows "isPinchingRef s' = isPinchingRef s" "anchorPos s' = anchorPos s"
    "cursor s' = cursor s" "events s' = events s" "isDraggingUI s' = isDraggingUI s"
    "dragTarget s' = dragTarget s" "lastHoveredElement s' = lastHoveredElement s"
    "lastCursorPos s' = lastCursorPos s" "cursorX_EMA s' = cursorX_EMA s"
    "cursorY_EMA s' = cursorY_EMA s" "lastLeftHandTime s' = lastLeftHandTime s"
  using processLeftHand_cases [OF assms] by auto

lemma processRightHand_pinch:
  assumes "processRightHand env t lms s = Some s'"
  shows "isPinchingRef s' =
     (if pinchDistance lms < PINCH_THRESHOLD_ON then True
      else if pinchDistance lms > PINCH_THRESHOLD_OFF then False
      else isPinchingRef s)"
  using assms
  by (auto simp add: processRightHand_def pinchDistance_def landmark_def Let_def split_def
      split: if_splits)

lemma processHands_pinch_kept:
  assumes "processHands env t hs l r s = Some (l', r', s')"
    and "\<forall>h \<in> set hs. handedness h = ''Right'' \<longrightarrow>
           PINCH_THRESHOLD_ON \<le> pinchDistance (landmarks h)
           \<and> pinchDistance (landmarks h) \<le> PINCH_THRESHOLD_OFF"
  shows "isPinchingRef s' = isPinchingRef s"
  using assms
proof (induction hs arbitrary: l r s)
  case Nil
  then show ?case by simp
next
  case (Cons h hs)
  show ?case
  proof (cases "handedness h = ''Left''")
    case True
    with Cons.prems(1) obtain s1 where s1: "processLeftHand (landmarks h) s = Some s1"
      and rest: "processHands env t hs True r s1 = Some (l', r', s')"
      by (auto split: option.splits)
    from Cons.IH [OF rest] Cons.prems(2) processLeftHand_right_fields(1) [OF s1]
    show ?thesis by simp
  next
    case False
    show ?thesis
    proof (cases "handedness h = ''Right''")
      case True
      with False Cons.prems(1) obtain s1 where
        s1: "processRightHand env t (landmarks h) s = Some s1"
        and rest: "processHands env t hs l True s1 = Some (l', r', s')"
        by (auto split: option.splits)
      from True Cons.prems(2) have "isPinchingRef s1 = isPinchingRef s"
        by (simp add: processRightHand_pinch [OF s1])
      with Cons.IH [OF rest] Cons.prems(2) show ?thesis by simp
    next
      case notRight: False
      with False Cons.prems(1) have "processHands env t hs l r s = Some (l', r', s')"
        by simp
      from Cons.IH [OF this] Cons.prems(2) show ?thesis by simp
    qed
  qed
qed

lemma predictWebcam_pinch_kept:
  assumes "predictWebcam s fr = Some s'"
    and "\<forall>h \<in> set (hands fr). handedness h = ''Right'' \<longrightarrow>
           PINCH_THRESHOLD_ON \<le> pinchDistance (landmarks h)
           \<and> pinchDistance (landmarks h) \<le> PINCH_THRESHOLD_OFF"
  shows "isPinchingRef s' = isPinchingRef s"
proof (cases "ready fr \<and> results fr \<noteq> None \<and> the (results fr) \<noteq> []")
  case False
  with assms(1) show ?thesis
    by (auto simp: predictWebcam_def Let_def split: if_splits)
next
  case True
  then obtain hs where hs: "results fr = Some hs" by auto
  with True assms(1) obtain l r s1 where
    ph: "processHands (document fr) (dateNow fr) hs False False s = Some (l, r, s1)"
    by (auto simp: predictWebcam_def split: option.splits)
  from assms(2) hs have "isPinchingRef s1 = isPinchingRef s"
    by (intro processHands_pinch_kept [OF ph]) (simp add: hands_def)
  with True hs ph assms(1) show ?thesis
    by (auto simp: predictWebcam_def Let_def split: if_splits)
qed

lemma runFrames_pinch_kept:
  assumes "runFrames s frs = Some s'"
    and "\<forall>fr \<in> set frs. \<forall>h \<in> set (hands fr). handedness h = ''Right'' \<longrightarrow>
           PINCH_THRESHOLD_ON \<le> pinchDistance (landmarks h)
           \<and> pinchDistance (landmarks h) \<le> PINCH_THRESHOLD_OFF"
  shows "isPinchingRef s' = isPinchingRef s"
  using assms
proof (induction frs arbitrary: s)
  case Nil
  then show ?case by simp
next
  case (Cons fr frs)
  from Cons.prems(1) obtain s1 where s1: "predictWebcam s fr = Some s1"
    and rest: "runFrames s1 frs = Some s'"
    by (auto split: option.splits)
  from Cons.prems(2) have "isPinchingRef s1 = isPinchingRef s"
    by (intro predictWebcam_pinch_kept [OF s1]) simp
  with Cons.IH [OF rest] Cons.prems(2) show ?case by simp
qed

text \<open>
  C2. A right hand with its 21 landmarks is processed, and afterwards the pinching state is
  true when the distance of thumb tip and index tip is below \<open>0.04\<close>, false when it is
  above \<open>0.055\<close>, and what it was before for any distance between the two thresholds.
  Hence the frames of a sequence in which every right-hand distance stays strictly between
  the thresholds are all processed and leave the pinching state as it was.
\<close>

theorem right_pinch_hysteresis:
  "PINCH_THRESHOLD_ON = 0.04 \<and> PINCH_THRESHOLD_OFF = 0.055
   \<and> (length lms = 21 \<longrightarrow>
        (\<exists>s'. processRightHand env t lms s = Some s'
           \<and> (pinchDistance lms < PINCH_THRESHOLD_ON \<longrightarrow> isPinchingRef s')
           \<and> (pinchDistance lms > PINCH_THRESHOLD_OFF \<longrightarrow> \<not> isPinchingRef s')
           \<and> (PINCH_THRESHOLD_ON \<le> pinchDistance lms
                \<and> pinchDistance lms \<le> PINCH_THRESHOLD_OFF
              \<longrightarrow> isPinchingRef s' = isPinchingRef s)))
   \<and> (list_all wellFormed frs
        \<and> (\<forall>fr \<in> set frs. \<forall>h \<in> set (hands fr). handedness h = ''Right'' \<longrightarrow>
              PINCH_THRESHOLD_ON < pinchDistance (landmarks h)
              \<and> pinchDistance (landmarks h) < PINCH_THRESHOLD_OFF)
      \<longrightarrow> (\<exists>s'. runFrames s frs = Some s' \<and> isPinchingRef s' = isPinchingRef s))"
proof (intro conjI impI)
  show "PINCH_THRESHOLD_ON = 0.04" by (simp add: PINCH_THRESHOLD_ON_def)
  show "PINCH_THRESHOLD_OFF = 0.055" by (simp add: PINCH_THRESHOLD_OFF_def)
next
  assume "length lms = 21"
  then obtain s' where s': "processRightHand env t lms s = Some s'"
    using processRightHand_total [of lms env t s] by auto
  have "PINCH_THRESHOLD_ON < PINCH_THRESHOLD_OFF"
    by (simp add: PINCH_THRESHOLD_ON_def PINCH_THRESHOLD_OFF_def)
  then show "\<exists>s'. processRightHand env t lms s = Some s'
           \<and> (pinchDistance lms < PINCH_THRESHOLD_ON \<longrightarrow> isPinchingRef s')
           \<and> (pinchDistance lms > PINCH_THRESHOLD_OFF \<longrightarrow> \<not> isPinchingRef s')
           \<and> (PINCH_THRESHOLD_ON \<le> pinchDistance lms
                \<and> pinchDistance lms \<le> PINCH_THRESHOLD_OFF
              \<longrightarrow> isPinchingRef s' = isPinchingRef s)"
    using s' processRightHand_pinch [OF s'] by auto
next
  assume a: "list_all wellFormed frs
        \<and> (\<forall>fr \<in> set frs. \<forall>h \<in> set (hands fr). handedness h = ''Right'' \<longrightarrow>
              PINCH_THRESHOLD_ON < pinchDistance (landmarks h)
              \<and> pinchDistance (landmarks h) < PINCH_THRESHOLD_OFF)"
  then obtain s' where s': "runFrames s frs = Some s'"
    using runFrames_total [of frs s] by auto
  from a have "isPinchingRef s' = isPinchingRef s"
    by (intro runFrames_pinch_kept [OF s']) (simp add: less_imp_le)
  with s' show "\<exists>s'. runFrames s frs = Some s' \<and> isPinchingRef s' = isPinchingRef s"
    by blast
qed

theorem right_pinch_hysteresis_witness:
  "(\<exists>s'. processRightHand page 0 (fistPoints 0.03) initialState = Some s' \<and> isPinchingRef s')
   \<and> (\<exists>s'. processRightHand page 0 (fistPoints 0.08) (initialState\<lparr>isPinchingRef := True\<rparr>)
           = Some s' \<and> \<not> isPinchingRef s')
   \<and> (\<exists>s'. processRightHand page 0 (fistPoints 0.05) (initialState\<lparr>isPinchingRef := True\<rparr>)
           = Some s' \<and> isPinchingRef s')
   \<and> (\<exists>s'. runFrames (initialState\<lparr>isPinchingRef := True\<rparr>)
             [frameAt 0 [rightHand 0.05], frameAt 16 [leftFist 0.3, rightHand 0.045]] = Some s'
           \<and> isPinchingRef s')"
  using right_pinch_hysteresis [where lms = "fistPoints 0.03" and env = page and t = 0
      and s = initialState and frs = "[]"]
    right_pinch_hysteresis [where lms = "fistPoints 0.08" and env = page and t = 0
      and s = "initialState\<lparr>isPinchingRef := True\<rparr>" and frs = "[]"]
    right_pinch_hysteresis [where lms = "fistPoints 0.05" and env = page and t = 0
      and s = "initialState\<lparr>isPinchingRef := True\<rparr>"
      and frs = "[frameAt 0 [rightHand 0.05], frameAt 16 [leftFist 0.3, rightHand 0.045]]"]
  by (simp add: wellFormed_def hands_def frameAt_def rightHand_def leftFist_def
      PINCH_THRESHOLD_ON_def PINCH_THRESHOLD_OFF_def del: runFrames.simps)

section \<open>The left hand on the concrete observations\<close>

lemma countExtended_fist:
  "countExtended (fistPoints d) (onAxis 0) [(8, 6), (12, 10), (16, 14), (20, 18)] 0 = Some 0"
  by (simp add: landmark_def fistPoints_nth distance3D_axis)

lemma processLeftHand_fist:
  assumes "\<not> isDraggingUI s"
  shows "processLeftHand (fistPoints d) s =
     Some (s\<lparr>mode :=
               modeUpdater
                 (fst (EMA_update (leftPinchSmoother s) (if \<bar>d\<bar> < 0.05 then 1 else 0)) > 0.6)
                 (fst (EMA_update (leftPinchSmoother s) (if \<bar>d\<bar> < 0.05 then 1 else 0)))
                 (fst (EMA_update (leftOpenPalmSmoother s) 0) > 0.6) (mode s),
             scrollOffset :=
               (if modeUpdater
                 (fst (EMA_update (leftPinchSmoother s) (if \<bar>d\<bar> < 0.05 then 1 else 0)) > 0.6)
                 (fst (EMA_update (leftPinchSmoother s) (if \<bar>d\<bar> < 0.05 then 1 else 0)))
                 (fst (EMA_update (leftOpenPalmSmoother s) 0) > 0.6) (mode s) = BROWSE
                then scrollOffset s + (fst (EMA_update (leftHandX_EMA s) 1) - 0.5) * 0.15
                else scrollOffset s),
             leftPinchSmoother :=
               snd (EMA_update (leftPinchSmoother s) (if \<bar>d\<bar> < 0.05 then 1 else 0)),
             leftOpenPalmSmoother := snd (EMA_update (leftOpenPalmSmoother s) 0),
             leftHandX_EMA := snd (EMA_update (leftHandX_EMA s) 1)\<rparr>)"
proof -
  have lm: "landmark (fistPoints d) 4 = Some (onAxis d)"
    "landmark (fistPoints d) 8 = Some (onAxis 0)"
    "landmark (fistPoints d) 9 = Some (onAxis 0)"
    "landmark (fistPoints d) 0 = Some (onAxis 0)"
    by (simp_all add: landmark_def fistPoints_nth)
  have px0: "px (onAxis 0) = 0" by (simp add: onAxis_def)
  show ?thesis
    using assms unfolding processLeftHand_def
    by (simp add: lm countExtended_fist distance3D_axis px0 Let_def split_def
        del: countExtended.simps)
qed

lemma predictWebcam_leftFist:
  assumes "\<not> isDraggingUI s"
  shows "\<exists>s'. predictWebcam s (frameAt t [leftFist d]) = Some s'
     \<and> \<not> isDraggingUI s'
     \<and> leftPinchSmoother s' =
         snd (EMA_update (leftPinchSmoother s) (if \<bar>d\<bar> < 0.05 then 1 else 0))
     \<and> leftOpenPalmSmoother s' = snd (EMA_update (leftOpenPalmSmoother s) 0)
     \<and> mode s' =
         modeUpdater
           (fst (EMA_update (leftPinchSmoother s) (if \<bar>d\<bar> < 0.05 then 1 else 0)) > 0.6)
           (fst (EMA_update (leftPinchSmoother s) (if \<bar>d\<bar> < 0.05 then 1 else 0)))
           (fst (EMA_update (leftOpenPalmSmoother s) 0) > 0.6) (mode s)"
  using assms
  by (simp add: predictWebcam_def frameAt_def leftFist_def processLeftHand_fist resetDrag_def
      Let_def)

text \<open>
  C1. Four frames from the initial state, each with a left hand only: a pinch in the first
  frame (smoothed pinch value 1) gives FOCUS; the hand then opens the pinch without
  stretching the fingers. After the second and third frame the smoothed value is 0.8 and
  0.64 and the mode is FOCUS; in the fourth frame the smoothed value is 0.512, strictly
  between 0.4 and 0.6, and the mode leaves FOCUS for AGGREGATE.
\<close>

theorem focus_dead_band_left:
  "map_option mode (runFrames initialState
       [frameAt 0 [leftFist 0.01], frameAt 16 [leftFist 0.3], frameAt 32 [leftFist 0.3]])
     = Some FOCUS
   \<and> map_option leftPinchSmoother (runFrames initialState
       [frameAt 0 [leftFist 0.01], frameAt 16 [leftFist 0.3], frameAt 32 [leftFist 0.3]])
     = Some \<lparr>alpha = 0.2, ema_value = Some 0.64\<rparr>
   \<and> map_option leftPinchSmoother (runFrames initialState
       [frameAt 0 [leftFist 0.01], frameAt 16 [leftFist 0.3], frameAt 32 [leftFist 0.3],
        frameAt 48 [leftFist 0.3]])
     = Some \<lparr>alpha = 0.2, ema_value = Some 0.512\<rparr>
   \<and> map_option mode (runFrames initialState
       [frameAt 0 [leftFist 0.01], frameAt 16 [leftFist 0.3], frameAt 32 [leftFist 0.3],
        frameAt 48 [leftFist 0.3]])
     = Some AGGREGATE"
proof -
  have d0: "\<not> isDraggingUI initialState" by (simp add: initialState_def)
  obtain s1 where s1: "predictWebcam initialState (frameAt 0 [leftFist 0.01]) = Some s1"
    and d1: "\<not> isDraggingUI s1"
    and p1: "leftPinchSmoother s1 = \<lparr>alpha = 0.2, ema_value = Some 1\<rparr>"
    and o1: "leftOpenPalmSmoother s1 = \<lparr>alpha = 0.2, ema_value = Some 0\<rparr>"
    and m1: "mode s1 = FOCUS"
    using predictWebcam_leftFist [OF d0, of 0 "0.01"]
    by (auto simp: initialState_def EMA_new_def EMA_update_def Let_def modeUpdater_def)
  obtain s2 where s2: "predictWebcam s1 (frameAt 16 [leftFist 0.3]) = Some s2"
    and d2: "\<not> isDraggingUI s2"
    and p2: "leftPinchSmoother s2 = \<lparr>alpha = 0.2, ema_value = Some 0.8\<rparr>"
    and o2: "leftOpenPalmSmoother s2 = \<lparr>alpha = 0.2, ema_value = Some 0\<rparr>"
    and m2: "mode s2 = FOCUS"
    using predictWebcam_leftFist [OF d1, of 16 "0.3"]
    by (auto simp: p1 o1 m1 EMA_update_def Let_def modeUpdater_def)
  obtain s3 where s3: "predictWebcam s2 (frameAt 32 [leftFist 0.3]) = Some s3"
    and d3: "\<not> isDraggingUI s3"
    and p3: "leftPinchSmoother s3 = \<lparr>alpha = 0.2, ema_value = Some 0.64\<rparr>"
    and o3: "leftOpenPalmSmoother s3 = \<lparr>alpha = 0.2, ema_value = Some 0\<rparr>"
    and m3: "mode s3 = FOCUS"
    using predictWebcam_leftFist [OF d2, of 32 "0.3"]
    by (auto simp: p2 o2 m2 EMA_update_def Let_def modeUpdater_def)
  obtain s4 where s4: "predictWebcam s3 (frameAt 48 [leftFist 0.3]) = Some s4"
    and p4: "leftPinchSmoother s4 = \<lparr>alpha = 0.2, ema_value = Some 0.512\<rparr>"
    and m4: "mode s4 = AGGREGATE"
    using predictWebcam_leftFist [OF d3, of 48 "0.3"]
    by (auto simp: p3 o3 m3 EMA_update_def Let_def modeUpdater_def)
  have r3: "runFrames initialState
       [frameAt 0 [leftFist 0.01], frameAt 16 [leftFist 0.3], frameAt 32 [leftFist 0.3]]
       = Some s3"
    using s1 s2 s3 by simp
  have r4: "runFrames initialState
       [frameAt 0 [leftFist 0.01], frameAt 16 [leftFist 0.3], frameAt 32 [leftFist 0.3],
        frameAt 48 [leftFist 0.3]]
       = Some s4"
    using s1 s2 s3 s4 by simp
  show ?thesis
    unfolding r3 r4 using p3 m3 p4 m4 by simp
qed

section \<open>The frame update\<close>

lemma processRightHand_left_fields:
  assumes "processRightHand env t lms s = Some s'"
  shows "mode s' = mode s" "scrollOffset s' = scrollOffset s"
    "lastLeftHandTime s' = lastLeftHandTime s" "leftHandX_EMA s' = leftHandX_EMA s"
    "leftPinchSmoother s' = leftPinchSmoother s"
    "leftOpenPalmSmoother s' = leftOpenPalmSmoother s"
  using assms
  by (auto simp: processRightHand_def Let_def split_def split: Option.bind_splits)

lemma processHands_flags:
  "processHands env t hs l r s = Some (l', r', s') \<Longrightarrow>
     l' = (l \<or> list_ex (\<lambda>h. handedness h = ''Left'') hs)
     \<and> r' = (r \<or> list_ex (\<lambda>h. handedness h = ''Right'') hs)"
proof (induction hs arbitrary: l r s)
  case Nil
  then show ?case by simp
next
  case (Cons h hs)
  show ?case
  proof (cases "handedness h = ''Left''")
    case True
    with Cons.prems obtain s1 where "processHands env t hs True r s1 = Some (l', r', s')"
      by (auto split: option.splits)
    from Cons.IH [OF this] True show ?thesis by simp
  next
    case False
    show ?thesis
    proof (cases "handedness h = ''Right''")
      case True
      with False Cons.prems obtain s1 where
        "processHands env t hs l True s1 = Some (l', r', s')"
        by (auto split: option.splits)
      from Cons.IH [OF this] True show ?thesis by simp
    next
      case notRight: False
      with False Cons.prems have "processHands env t hs l r s = Some (l', r', s')" by simp
      from Cons.IH [OF this] False notRight show ?thesis by simp
    qed
  qed
qed

lemma processHands_lastLeftHandTime:
  "processHands env t hs l r s = Some (l', r', s') \<Longrightarrow>
     lastLeftHandTime s' = lastLeftHandTime s"
proof (induction hs arbitrary: l r s)
  case Nil
  then show ?case by simp
next
  case (Cons h hs)
  then show ?case
    by (auto split: if_splits option.splits
        simp: processLeftHand_right_fields(11) processRightHand_left_fields(3))
qed

lemma processHands_no_left:
  "processHands env t hs l r s = Some (l', r', s') \<Longrightarrow>
     \<not> list_ex (\<lambda>h. handedness h = ''Left'') hs \<Longrightarrow>
     mode s' = mode s \<and> scrollOffset s' = scrollOffset s"
proof (induction hs arbitrary: l r s)
  case Nil
  then show ?case by simp
next
  case (Cons h hs)
  then show ?case
    by (auto split: if_splits option.splits simp: processRightHand_left_fields)
qed

lemma processHands_no_right:
  "processHands env t hs l r s = Some (l', r', s') \<Longrightarrow>
     \<not> list_ex (\<lambda>h. handedness h = ''Right'') hs \<Longrightarrow>
     isPinchingRef s' = isPinchingRef s \<and> anchorPos s' = anchorPos s
     \<and> cursor s' = cursor s \<and> events s' = events s \<and> isDraggingUI s' = isDraggingUI s
     \<and> dragTarget s' = dragTarget s \<and> lastHoveredElement s' = lastHoveredElement s
     \<and> lastCursorPos s' = lastCursorPos s"
proof (induction hs arbitrary: l r s)
  case Nil
  then show ?case by simp
next
  case (Cons h hs)
  then show ?case
    by (auto split: if_splits option.splits simp: processLeftHand_right_fields)
qed

text \<open>
  The two branches of a frame that is processed differ only in what they do to
  \<open>clicking\<close> when there is no right hand.
\<close>

lemma predictWebcam_ready:
  assumes "ready fr" and "predictWebcam s fr = Some s'"
  shows "\<exists>s1. processHands (document fr) (dateNow fr) (hands fr) False False s
          = Some (observed ''Left'' fr, observed ''Right'' fr, s1)
     \<and> lastLeftHandTime s1 = lastLeftHandTime s
     \<and> s' =
        (let s2 = (if observed ''Left'' fr then s1\<lparr>lastLeftHandTime := dateNow fr\<rparr> else s1);
             s3 = (if \<not> observed ''Left'' fr \<and> dateNow fr - lastLeftHandTime s2 > 500
                   then s2\<lparr>mode := AGGREGATE\<rparr> else s2)
         in if observed ''Right'' fr then s3
            else resetDrag (s3\<lparr>cursor := (cursor s3)\<lparr>active := False,
                   clicking := (hands fr = [] \<and> clicking (cursor s3))\<rparr>\<rparr>))"
proof (cases "hands fr = []")
  case True
  then have "results fr = None \<or> the (results fr) = []"
    by (auto simp: hands_def split: option.splits)
  with assms True show ?thesis
    by (auto simp: predictWebcam_def observed_def Let_def)
next
  case False
  then obtain hs where hs: "results fr = Some hs" "hs \<noteq> []" "hands fr = hs"
    by (auto simp: hands_def split: option.splits)
  with assms obtain l r s1 where
    ph: "processHands (document fr) (dateNow fr) hs False False s = Some (l, r, s1)"
    and s': "s' =
        (let s2 = (if l then s1\<lparr>lastLeftHandTime := dateNow fr\<rparr> else s1);
             s3 = (if \<not> l \<and> dateNow fr - lastLeftHandTime s2 > 500
                   then s2\<lparr>mode := AGGREGATE\<rparr> else s2)
         in if r then s3
            else resetDrag (s3\<lparr>cursor := (cursor s3)\<lparr>active := False, clicking := False\<rparr>\<rparr>))"
    by (auto simp: predictWebcam_def Let_def split: option.splits if_splits)
  from processHands_flags [OF ph] hs have lr: "l = observed ''Left'' fr" "r = observed ''Right'' fr"
    by (simp_all add: observed_def)
  from ph lr s' hs processHands_lastLeftHandTime [OF ph] show ?thesis
    by (simp add: Let_def)
qed

lemma predictWebcam_not_ready: "\<not> ready fr \<Longrightarrow> predictWebcam s fr = Some s"
  by (simp add: predictWebcam_def)

section \<open>Idle timeout\<close>

lemma predictWebcam_no_left:
  assumes "ready fr" and "\<not> observed ''Left'' fr" and "predictWebcam s fr = Some s'"
  shows "lastLeftHandTime s' = lastLeftHandTime s"
    and "mode s' = (if dateNow fr - lastLeftHandTime s > 500 then AGGREGATE else mode s)"
proof -
  from predictWebcam_ready [OF assms(1,3)] assms(2) obtain s1 where
    ph: "processHands (document fr) (dateNow fr) (hands fr) False False s
          = Some (False, observed ''Right'' fr, s1)"
    and t1: "lastLeftHandTime s1 = lastLeftHandTime s"
    and s': "s' =
        (let s3 = (if dateNow fr - lastLeftHandTime s1 > 500
                   then s1\<lparr>mode := AGGREGATE\<rparr> else s1)
         in if observed ''Right'' fr then s3
            else resetDrag (s3\<lparr>cursor := (cursor s3)\<lparr>active := False,
                   clicking := (hands fr = [] \<and> clicking (cursor s3))\<rparr>\<rparr>))"
    by (auto simp: Let_def)
  from assms(2) have "\<not> list_ex (\<lambda>h. handedness h = ''Left'') (hands fr)"
    by (simp add: observed_def)
  from processHands_no_left [OF ph this] have m1: "mode s1 = mode s" by simp
  from s' t1 show "lastLeftHandTime s' = lastLeftHandTime s"
    by (simp add: Let_def)
  from s' t1 m1
  show "mode s' = (if dateNow fr - lastLeftHandTime s > 500 then AGGREGATE else mode s)"
    by (simp add: Let_def)
qed

lemma predictWebcam_left_seen:
  assumes "ready fr" and "observed ''Left'' fr" and "predictWebcam s fr = Some s'"
  shows "lastLeftHandTime s' = dateNow fr"
  using predictWebcam_ready [OF assms(1,3)] assms(2)
  by (auto simp: Let_def)

text \<open>
  C5, as the code has it. A processed frame with a Left observation records its timestamp
  as the time the left hand was last seen. A processed frame without a Left observation
  keeps that time, and forces the mode to AGGREGATE when its timestamp is more than 500 ms
  later, whatever the mode was and whatever else the frame holds; when it is 500 ms later
  or less, the mode stays as it was.
\<close>

theorem idle_timeout:
  "(ready fr \<and> wellFormed fr \<and> observed ''Left'' fr \<longrightarrow>
      (\<exists>s'. predictWebcam s fr = Some s' \<and> lastLeftHandTime s' = dateNow fr))
   \<and> (ready fr \<and> wellFormed fr \<and> \<not> observed ''Left'' fr \<longrightarrow>
      (\<exists>s'. predictWebcam s fr = Some s'
         \<and> lastLeftHandTime s' = lastLeftHandTime s
         \<and> (500 < dateNow fr - lastLeftHandTime s \<longrightarrow> mode s' = AGGREGATE)
         \<and> (dateNow fr - lastLeftHandTime s \<le> 500 \<longrightarrow> mode s' = mode s)))"
proof (intro conjI impI)
  assume a: "ready fr \<and> wellFormed fr \<and> observed ''Left'' fr"
  then obtain s' where s': "predictWebcam s fr = Some s'"
    using predictWebcam_total [of fr s] by auto
  with a predictWebcam_left_seen [OF _ _ s']
  show "\<exists>s'. predictWebcam s fr = Some s' \<and> lastLeftHandTime s' = dateNow fr"
    by simp
next
  assume a: "ready fr \<and> wellFormed fr \<and> \<not> observed ''Left'' fr"
  then obtain s' where s': "predictWebcam s fr = Some s'"
    using predictWebcam_total [of fr s] by auto
  with a predictWebcam_no_left [OF _ _ s']
  show "\<exists>s'. predictWebcam s fr = Some s'
         \<and> lastLeftHandTime s' = lastLeftHandTime s
         \<and> (500 < dateNow fr - lastLeftHandTime s \<longrightarrow> mode s' = AGGREGATE)
         \<and> (dateNow fr - lastLeftHandTime s \<le> 500 \<longrightarrow> mode s' = mode s)"
    by simp
qed

theorem idle_timeout_witness:
  "(\<exists>s'. predictWebcam initialState (frameAt 1000 [leftFist 0.01]) = Some s'
      \<and> lastLeftHandTime s' = 1000)
   \<and> (\<exists>s'. predictWebcam (initialState\<lparr>mode := FOCUS, lastLeftHandTime := 1000\<rparr>)
             (frameAt 1501 [rightHand 0.3]) = Some s'
      \<and> lastLeftHandTime s' = 1000 \<and> mode s' = AGGREGATE)
   \<and> (\<exists>s'. predictWebcam (initialState\<lparr>mode := BROWSE, lastLeftHandTime := 1000\<rparr>)
             (frameAt 1500 []) = Some s'
      \<and> lastLeftHandTime s' = 1000 \<and> mode s' = BROWSE)"
  using idle_timeout [of "frameAt 1000 [leftFist 0.01]" initialState]
    idle_timeout [of "frameAt 1501 [rightHand 0.3]"
      "initialState\<lparr>mode := FOCUS, lastLeftHandTime := 1000\<rparr>"]
    idle_timeout [of "frameAt 1500 []"
      "initialState\<lparr>mode := BROWSE, lastLeftHandTime := 1000\<rparr>"]
  by (simp add: frameAt_def wellFormed_def observed_def hands_def leftFist_def rightHand_def)

text \<open>
  C5 as stated fails at exactly 500 ms: a pinching left hand at time 1000 gives FOCUS; the
  frames at time 1500, one empty and one with a right hand only, hold no Left observation
  and leave the mode at FOCUS.
\<close>

theorem idle_timeout_at_500_counterexample:
  "observed ''Left'' (frameAt 1000 [leftFist 0.01])
   \<and> \<not> observed ''Left'' (frameAt 1500 [])
   \<and> \<not> observed ''Left'' (frameAt 1500 [rightHand 0.3])
   \<and> dateNow (frameAt 1500 []) - dateNow (frameAt 1000 [leftFist 0.01]) = 500
   \<and> map_option mode (runFrames initialState [frameAt 1000 [leftFist 0.01]]) = Some FOCUS
   \<and> map_option mode (runFrames initialState [frameAt 1000 [leftFist 0.01], frameAt 1500 []])
       = Some FOCUS
   \<and> map_option mode
        (runFrames initialState [frameAt 1000 [leftFist 0.01], frameAt 1500 [rightHand 0.3]])
       = Some FOCUS"
proof -
  have d0: "\<not> isDraggingUI initialState" by (simp add: initialState_def)
  have obs: "observed ''Left'' (frameAt 1000 [leftFist 0.01])"
    "\<not> observed ''Left'' (frameAt 1500 [])"
    "\<not> observed ''Left'' (frameAt 1500 [rightHand 0.3])"
    "ready (frameAt 1000 [leftFist 0.01])" "ready (frameAt 1500 [])"
    "ready (frameAt 1500 [rightHand 0.3])"
    "dateNow (frameAt 1500 []) = 1500" "dateNow (frameAt 1500 [rightHand 0.3]) = 1500"
    "dateNow (frameAt 1000 [leftFist 0.01]) = 1000"
    by (simp_all add: observed_def hands_def frameAt_def leftFist_def rightHand_def)
  obtain s1 where s1: "predictWebcam initialState (frameAt 1000 [leftFist 0.01]) = Some s1"
    and m1: "mode s1 = FOCUS"
    using predictWebcam_leftFist [OF d0, of 1000 "0.01"]
    by (auto simp: initialState_def EMA_new_def EMA_update_def Let_def modeUpdater_def)
  have t1: "lastLeftHandTime s1 = 1000"
    using predictWebcam_left_seen [OF obs(4) obs(1) s1] obs(9) by simp
  obtain s2 where s2: "predictWebcam s1 (frameAt 1500 []) = Some s2"
    using predictWebcam_total [of "frameAt 1500 []" s1]
    by (auto simp: wellFormed_def hands_def frameAt_def)
  have m2: "mode s2 = FOCUS"
    using predictWebcam_no_left(2) [OF obs(5) obs(2) s2] t1 m1 obs(7) by simp
  obtain s3 where s3: "predictWebcam s1 (frameAt 1500 [rightHand 0.3]) = Some s3"
    using predictWebcam_total [of "frameAt 1500 [rightHand 0.3]" s1]
    by (auto simp: wellFormed_def hands_def frameAt_def rightHand_def)
  have m3: "mode s3 = FOCUS"
    using predictWebcam_no_left(2) [OF obs(6) obs(3) s3] t1 m1 obs(8) by simp
  have "map_option mode (runFrames initialState [frameAt 1000 [leftFist 0.01]]) = Some FOCUS"
    using s1 m1 by simp
  moreover have
    "map_option mode (runFrames initialState [frameAt 1000 [leftFist 0.01], frameAt 1500 []])
       = Some FOCUS"
    using s1 s2 m2 by simp
  moreover have "map_option mode
        (runFrames initialState [frameAt 1000 [leftFist 0.01], frameAt 1500 [rightHand 0.3]])
       = Some FOCUS"
    using s1 s3 m3 by simp
  ultimately show ?thesis using obs by simp
qed

section \<open>The drag on the concrete page, frame by frame\<close>

lemma pointingPoints_length [simp]: "length (pointingPoints a d) = 21"
  by (simp add: pointingPoints_def)

lemma pointingPoints_nth:
  "i < 21 \<Longrightarrow> pointingPoints a d ! i =
     (if i = 8 then onAxis a else if i = 4 then onAxis (a + d) else onAxis 0)"
  by (simp add: pointingPoints_def nth_list_update)

lemma pinchDistance_pointing [simp]: "pinchDistance (pointingPoints a d) = \<bar>d\<bar>"
  by (simp add: pinchDistance_def pointingPoints_nth distance3D_axis)

lemma landmark_pointing:
  "landmark (pointingPoints a d) 8 = Some (onAxis a)"
  "landmark (pointingPoints a d) 4 = Some (onAxis (a + d))"
  by (simp_all add: landmark_def pointingPoints_nth)

lemma onAxis_sel [simp]: "px (onAxis a) = a" "py (onAxis a) = 0" "pz (onAxis a) = 0"
  by (simp_all add: onAxis_def)

lemmas right_eval =
  predictWebcam_def frameAt_def rightHandAt_def processRightHand_def
  landmark_pointing distance3D_axis Let_def split_def
  handleCursorInteraction_def page_def EMA_update_def EMA_new_def lerp_def
  PINCH_THRESHOLD_ON_def PINCH_THRESHOLD_OFF_def ANCHOR_STRENGTH_def CURSOR_SMOOTHING_def
  initialState_def pressEvents_def dragEvents_def

lemma frame_press:
  "predictWebcam initialState (frameAt 0 [rightHandAt 0.8 0.01]) = Some afterPress"
  by (simp add: right_eval afterPress_def)

lemma frame_drag:
  "predictWebcam afterPress (frameAt 16 [rightHandAt 0 0.01]) = Some afterDrag"
  by (simp add: right_eval afterPress_def afterDrag_def)

lemma frame_release:
  "predictWebcam afterDrag (frameAt 32 [rightHandAt 0 0.08]) = Some afterRelease"
  by (simp add: right_eval afterPress_def afterDrag_def afterRelease_def)

lemma frame_loss:
  "predictWebcam afterDrag (frameAt 32 [leftFist 0.3]) = Some afterLoss"
  by (simp add: predictWebcam_def frameAt_def leftFist_def processLeftHand_def resetDrag_def
      initialState_def afterPress_def afterDrag_def afterLoss_def)

lemma frame_return:
  "predictWebcam afterLoss (frameAt 48 [rightHandAt 0 0.01]) = Some afterReturn"
  by (simp add: right_eval afterPress_def afterDrag_def afterLoss_def afterReturn_def)

lemma frame_return_release:
  "predictWebcam afterReturn (frameAt 64 [rightHandAt 0 0.08]) = Some afterReturnRelease"
  by (simp add: right_eval afterPress_def afterDrag_def afterLoss_def afterReturn_def
      afterReturnRelease_def)

section \<open>Frames without a right hand\<close>

lemma predictWebcam_no_right:
  assumes "ready fr" and "\<not> observed ''Right'' fr" and "predictWebcam s fr = Some s'"
  shows "events s' = events (resetDrag s)" "isDraggingUI s' = isDraggingUI (resetDrag s)"
    "dragTarget s' = dragTarget (resetDrag s)"
    "isPinchingRef s' = isPinchingRef s" "anchorPos s' = anchorPos s"
    "lastClickTime (cursor s') = lastClickTime (cursor s)"
    "active (cursor s') = False"
    "hands fr \<noteq> [] \<Longrightarrow> clicking (cursor s') = False"
    "lastHoveredElement s' = lastHoveredElement s"
proof -
  from predictWebcam_ready [OF assms(1,3)] assms(2) obtain s1 where
    ph: "processHands (document fr) (dateNow fr) (hands fr) False False s
          = Some (observed ''Left'' fr, False, s1)"
    and s': "s' =
        (let s2 = (if observed ''Left'' fr then s1\<lparr>lastLeftHandTime := dateNow fr\<rparr> else s1);
             s3 = (if \<not> observed ''Left'' fr \<and> dateNow fr - lastLeftHandTime s2 > 500
                   then s2\<lparr>mode := AGGREGATE\<rparr> else s2)
         in resetDrag (s3\<lparr>cursor := (cursor s3)\<lparr>active := False,
                   clicking := (hands fr = [] \<and> clicking (cursor s3))\<rparr>\<rparr>))"
    by (auto simp: Let_def)
  from assms(2) have "\<not> list_ex (\<lambda>h. handedness h = ''Right'') (hands fr)"
    by (simp add: observed_def)
  note keep = processHands_no_right [OF ph this]
  from s' keep show "events s' = events (resetDrag s)"
    "isDraggingUI s' = isDraggingUI (resetDrag s)" "dragTarget s' = dragTarget (resetDrag s)"
    "isPinchingRef s' = isPinchingRef s" "anchorPos s' = anchorPos s"
    "lastClickTime (cursor s') = lastClickTime (cursor s)" "active (cursor s') = False"
    "lastHoveredElement s' = lastHoveredElement s"
    by (simp_all add: Let_def resetDrag_def)
  from s' keep show "hands fr \<noteq> [] \<Longrightarrow> clicking (cursor s') = False"
    by (simp add: Let_def resetDrag_def)
qed

text \<open>
  C4, as the code has it. A processed frame without a Right observation, in a state whose
  drag session on the element \<open>e\<close> is open, dispatches one event to \<open>e\<close>, a
  \<^verbatim>\<open>pointerup\<close> with the default coordinates and not primary, and clears the session.
  It dispatches no \<^verbatim>\<open>mouseup\<close> and no \<^verbatim>\<open>click\<close>.
\<close>

theorem right_hand_lost_mid_drag:
  "ready fr \<and> wellFormed fr \<and> \<not> observed ''Right'' fr
     \<and> isDraggingUI s \<and> dragTarget s = Some e \<longrightarrow>
   (\<exists>s'. predictWebcam s fr = Some s'
      \<and> events s' = events s @ [Dispatch e pointerup 0 0 False]
      \<and> \<not> isDraggingUI s' \<and> dragTarget s' = None)"
proof
  assume a: "ready fr \<and> wellFormed fr \<and> \<not> observed ''Right'' fr
     \<and> isDraggingUI s \<and> dragTarget s = Some e"
  then obtain s' where s': "predictWebcam s fr = Some s'"
    using predictWebcam_total [of fr s] by auto
  from a predictWebcam_no_right(1-3) [OF _ _ s']
  have "events s' = events s @ [Dispatch e pointerup 0 0 False]
      \<and> \<not> isDraggingUI s' \<and> dragTarget s' = None"
    by (simp add: resetDrag_def)
  with s' show "\<exists>s'. predictWebcam s fr = Some s'
      \<and> events s' = events s @ [Dispatch e pointerup 0 0 False]
      \<and> \<not> isDraggingUI s' \<and> dragTarget s' = None"
    by blast
qed

theorem right_hand_lost_mid_drag_witness:
  "\<exists>s'. predictWebcam afterDrag (frameAt 32 [leftFist 0.3]) = Some s'
      \<and> events s' = events afterDrag @ [Dispatch 1 pointerup 0 0 False]
      \<and> \<not> isDraggingUI s' \<and> dragTarget s' = None"
  using right_hand_lost_mid_drag [of "frameAt 32 [leftFist 0.3]" afterDrag 1]
  by (simp add: frameAt_def wellFormed_def observed_def hands_def leftFist_def
      afterDrag_def afterPress_def)

text \<open>
  C4 as stated fails on the drag above: when the right hand is lost, the frame appends a
  single \<^verbatim>\<open>pointerup\<close> at \<open>(0, 0)\<close>; when the pinch is released instead, the frame
  appends \<^verbatim>\<open>pointerup\<close>, \<^verbatim>\<open>mouseup\<close> and \<^verbatim>\<open>click\<close> at the position of the cursor.
\<close>

theorem right_hand_lost_mid_drag_counterexample:
  "runFrames initialState [frameAt 0 [rightHandAt 0.8 0.01], frameAt 16 [rightHandAt 0 0.01]]
     = Some afterDrag
   \<and> isDraggingUI afterDrag \<and> dragTarget afterDrag = Some 1
   \<and> \<not> observed ''Right'' (frameAt 32 [leftFist 0.3])
   \<and> predictWebcam afterDrag (frameAt 32 [leftFist 0.3]) = Some afterLoss
   \<and> events afterLoss = events afterDrag @ [Dispatch 1 pointerup 0 0 False]
   \<and> predictWebcam afterDrag (frameAt 32 [rightHandAt 0 0.08]) = Some afterRelease
   \<and> events afterRelease = events afterDrag
        @ [Dispatch 2 pointermove 800 0 False, Dispatch 1 pointerup 800 0 True,
           Dispatch 1 mouseup 800 0 False, Dispatch 1 click 800 0 False]"
proof -
  have "runFrames initialState
      [frameAt 0 [rightHandAt 0.8 0.01], frameAt 16 [rightHandAt 0 0.01]] = Some afterDrag"
    using frame_press frame_drag by simp
  moreover have "\<not> observed ''Right'' (frameAt 32 [leftFist 0.3])"
    by (simp add: observed_def hands_def frameAt_def leftFist_def)
  moreover have "isDraggingUI afterDrag \<and> dragTarget afterDrag = Some 1
     \<and> events afterLoss = events afterDrag @ [Dispatch 1 pointerup 0 0 False]
     \<and> events afterRelease = events afterDrag
        @ [Dispatch 2 pointermove 800 0 False, Dispatch 1 pointerup 800 0 True,
           Dispatch 1 mouseup 800 0 False, Dispatch 1 click 800 0 False]"
    by (simp add: afterDrag_def afterPress_def afterLoss_def afterRelease_def)
  ultimately show ?thesis using frame_loss frame_release by simp
qed

section \<open>The cursor state\<close>

lemma initialState_fields [simp]:
  "mode initialState = AGGREGATE" "scrollOffset initialState = 0"
  "cursor initialState =
     \<lparr>cur_x = 0, cur_y = 0, active = False, clicking = False, lastClickTime = 0\<rparr>"
  "lastLeftHandTime initialState = 0"
  "isPinchingRef initialState = False" "anchorPos initialState = None"
  "lastCursorPos initialState = (0, 0)" "isDraggingUI initialState = False"
  "dragTarget initialState = None" "lastHoveredElement initialState = None"
  "events initialState = []"
  by (simp_all add: initialState_def)

lemma processRightHand_unfold:
  assumes "processRightHand env t lms s = Some s'"
  shows "\<exists>sx sy pn a1 ox oy s0.
      8 < length lms
    \<and> sx = fst (EMA_update (cursorX_EMA s) ((1 - px (lms ! 8)) * innerWidth env))
    \<and> sy = fst (EMA_update (cursorY_EMA s) (py (lms ! 8) * innerHeight env))
    \<and> pn = (if pinchDistance lms < PINCH_THRESHOLD_ON then True
            else if pinchDistance lms > PINCH_THRESHOLD_OFF then False
            else isPinchingRef s)
    \<and> a1 = (if pn \<and> \<not> isPinchingRef s then Some (sx, sy) else anchorPos s)
    \<and> ox = (if pn \<and> a1 \<noteq> None then lerp (fst (the a1)) sx (1 - ANCHOR_STRENGTH) else sx)
    \<and> oy = (if pn \<and> a1 \<noteq> None then lerp (snd (the a1)) sy (1 - ANCHOR_STRENGTH) else sy)
    \<and> s0 = s\<lparr>cursorX_EMA :=
                snd (EMA_update (cursorX_EMA s) ((1 - px (lms ! 8)) * innerWidth env)),
              cursorY_EMA :=
                snd (EMA_update (cursorY_EMA s) (py (lms ! 8) * innerHeight env)),
              isPinchingRef := pn,
              anchorPos :=
                (if pn \<and> a1 \<noteq> None then a1
                 else if \<not> pn \<and> isPinchingRef s then None else a1),
              lastCursorPos := (ox, oy),
              cursor := \<lparr>cur_x = ox, cur_y = oy, active = True, clicking = pn,
                         lastClickTime =
                           (if pn \<and> \<not> isPinchingRef s then t
                            else lastClickTime (cursor s))\<rparr>,
              events := events s
                @ (if pn \<and> \<not> isPinchingRef s then [PlaySound ''click''] else [])\<rparr>
    \<and> s' = handleCursorInteraction env ox oy (oy - snd (lastCursorPos s)) pn
          (isPinchingRef s) s0"
proof -
  from assms have len: "8 < length lms"
    by (auto simp: processRightHand_def landmark_def split: Option.bind_splits if_splits)
  then have lm: "landmark lms 8 = Some (lms ! 8)" "landmark lms 4 = Some (lms ! 4)"
    by (simp_all add: landmark_def)
  from assms len show ?thesis
    unfolding processRightHand_def lm pinchDistance_def
    by (simp add: Let_def split_def if_distrib [of fst] if_distrib [of snd]
        if_distrib [of "\<lambda>p. fst (snd p)"] if_distrib [of "\<lambda>p. snd (snd p)"] cong: if_cong)
qed

lemma processRightHand_cursor:
  assumes "processRightHand env t lms s = Some s'"
  shows "active (cursor s')" and "clicking (cursor s') = isPinchingRef s'"
    and "lastClickTime (cursor s') =
      (if isPinchingRef s' \<and> \<not> isPinchingRef s then t else lastClickTime (cursor s))"
    and "cur_x (cursor s') = fst (lastCursorPos s')"
    and "cur_y (cursor s') = snd (lastCursorPos s')"
  using processRightHand_unfold [OF assms] by auto

lemma processHands_right_seen:
  "processHands env t hs l r s = Some (l', r', s') \<Longrightarrow>
     (active (cursor s) \<and> clicking (cursor s) = isPinchingRef s)
       \<or> list_ex (\<lambda>h. handedness h = ''Right'') hs \<Longrightarrow>
     active (cursor s') \<and> clicking (cursor s') = isPinchingRef s'"
proof (induction hs arbitrary: l r s)
  case Nil
  then show ?case by simp
next
  case (Cons h hs)
  show ?case
  proof (cases "handedness h = ''Left''")
    case True
    with Cons.prems(1) obtain s1 where s1: "processLeftHand (landmarks h) s = Some s1"
      and rest: "processHands env t hs True r s1 = Some (l', r', s')"
      by (auto split: option.splits)
    from Cons.prems(2) True processLeftHand_right_fields(1,3) [OF s1]
    have "(active (cursor s1) \<and> clicking (cursor s1) = isPinchingRef s1)
       \<or> list_ex (\<lambda>h. handedness h = ''Right'') hs"
      by auto
    from Cons.IH [OF rest this] show ?thesis .
  next
    case False
    show ?thesis
    proof (cases "handedness h = ''Right''")
      case True
      with False Cons.prems(1) obtain s1 where
        s1: "processRightHand env t (landmarks h) s = Some s1"
        and rest: "processHands env t hs l True s1 = Some (l', r', s')"
        by (auto split: option.splits)
      from processRightHand_cursor(1,2) [OF s1]
      have "(active (cursor s1) \<and> clicking (cursor s1) = isPinchingRef s1)
         \<or> list_ex (\<lambda>h. handedness h = ''Right'') hs"
        by simp
      from Cons.IH [OF rest this] show ?thesis .
    next
      case notRight: False
      with False Cons.prems(1) have rest: "processHands env t hs l r s = Some (l', r', s')"
        by simp
      from Cons.prems(2) notRight
      have "(active (cursor s) \<and> clicking (cursor s) = isPinchingRef s)
         \<or> list_ex (\<lambda>h. handedness h = ''Right'') hs"
        by simp
      from Cons.IH [OF rest this] show ?thesis .
    qed
  qed
qed

text \<open>
  The loop over the hands can be cut anywhere. It changes \<open>lastClickTime\<close> exactly when one
  of the right hands is processed with a rising edge of the pinch, in the state that the hands
  before it have left; the new value is the timestamp of the frame.
\<close>

lemma processHands_append:
  "processHands env t (xs @ ys) l r s =
     (case processHands env t xs l r s of
        None \<Rightarrow> None
      | Some (l1, r1, u) \<Rightarrow> processHands env t ys l1 r1 u)"
  by (induction xs arbitrary: l r s) (simp_all split: option.splits)

lemma processHands_lastClickTime_range:
  "processHands env t hs l r s = Some (l', r', s') \<Longrightarrow>
     lastClickTime (cursor s') = lastClickTime (cursor s) \<or> lastClickTime (cursor s') = t"
proof (induction hs arbitrary: l r s)
  case Nil
  then show ?case by simp
next
  case (Cons h hs)
  show ?case
  proof (cases "handedness h = ''Left''")
    case True
    with Cons.prems obtain s1 where s1: "processLeftHand (landmarks h) s = Some s1"
      and rest: "processHands env t hs True r s1 = Some (l', r', s')"
      by (auto split: option.splits)
    from Cons.IH [OF rest] processLeftHand_right_fields(3) [OF s1] show ?thesis by simp
  next
    case False
    show ?thesis
    proof (cases "handedness h = ''Right''")
      case True
      with False Cons.prems obtain s1 where
        s1: "processRightHand env t (landmarks h) s = Some s1"
        and rest: "processHands env t hs l True s1 = Some (l', r', s')"
        by (auto split: option.splits)
      from Cons.IH [OF rest] processRightHand_cursor(3) [OF s1] show ?thesis
        by (auto split: if_splits)
    next
      case notRight: False
      with False Cons.prems have rest: "processHands env t hs l r s = Some (l', r', s')"
        by simp
      from Cons.IH [OF rest] show ?thesis .
    qed
  qed
qed

lemma processHands_snoc:
  assumes "processHands env t (hs @ [h]) l r s = Some (l', r', s')"
  shows "\<exists>l1 r1 u. processHands env t hs l r s = Some (l1, r1, u)
     \<and> processHands env t [h] l1 r1 u = Some (l', r', s')"
proof (cases "processHands env t hs l r s")
  case None
  with assms show ?thesis by (simp add: processHands_append)
next
  case (Some a)
  obtain l1 r1 u where "a = (l1, r1, u)" by (cases a) auto
  with Some assms show ?thesis by (simp add: processHands_append)
qed

lemma processHands_edge_found:
  "processHands env t hs l r s = Some (l', r', s') \<Longrightarrow>
     lastClickTime (cursor s') \<noteq> lastClickTime (cursor s) \<Longrightarrow>
     \<exists>pre h post l1 r1 u u'. hs = pre @ h # post \<and> handedness h = ''Right''
        \<and> processHands env t pre l r s = Some (l1, r1, u)
        \<and> processRightHand env t (landmarks h) u = Some u'
        \<and> \<not> isPinchingRef u \<and> isPinchingRef u'"
proof (induction hs arbitrary: l' r' s' rule: rev_induct)
  case Nil
  then show ?case by simp
next
  case (snoc h hs)
  from processHands_snoc [OF snoc.prems(1)] obtain l1 r1 u where
    front: "processHands env t hs l r s = Some (l1, r1, u)"
    and last: "processHands env t [h] l1 r1 u = Some (l', r', s')"
    by (elim exE conjE)
  show ?case
  proof (cases "lastClickTime (cursor u) = lastClickTime (cursor s)")
    case False
    from snoc.IH [OF front False] obtain pre h' post l2 r2 v v' where
      "hs = pre @ h' # post" "handedness h' = ''Right''"
      "processHands env t pre l r s = Some (l2, r2, v)"
      "processRightHand env t (landmarks h') v = Some v'"
      "\<not> isPinchingRef v" "isPinchingRef v'"
      by (elim exE conjE)
    then show ?thesis
      by (intro exI [of _ pre] exI [of _ h'] exI [of _ "post @ [h]"] exI [of _ l2]
          exI [of _ r2] exI [of _ v] exI [of _ v']) simp
  next
    case True
    with snoc.prems(2) have changed: "lastClickTime (cursor s') \<noteq> lastClickTime (cursor u)"
      by simp
    have notLeft: "handedness h \<noteq> ''Left''"
    proof
      assume left: "handedness h = ''Left''"
      with last obtain s1 where s1: "processLeftHand (landmarks h) u = Some s1" and "s' = s1"
        by (auto split: option.splits)
      with processLeftHand_right_fields(3) [OF s1] changed show False by simp
    qed
    have right: "handedness h = ''Right''"
    proof (rule ccontr)
      assume "handedness h \<noteq> ''Right''"
      with notLeft last have "s' = u" by simp
      with changed show False by simp
    qed
    with notLeft last have step: "processRightHand env t (landmarks h) u = Some s'"
      by (auto split: option.splits)
    from processRightHand_cursor(3) [OF step] changed
    have "\<not> isPinchingRef u" "isPinchingRef s'"
      by (auto split: if_splits)
    with front step right show ?thesis
      by (intro exI [of _ hs] exI [of _ h] exI [of _ "[]"] exI [of _ l1]
          exI [of _ r1] exI [of _ u] exI [of _ s']) simp
  qed
qed

lemma processHands_edge_stamps:
  assumes run: "processHands env t hs l r s = Some (l', r', s')"
    and hs: "hs = pre @ h # post" and right: "handedness h = ''Right''"
    and front: "processHands env t pre l r s = Some (l1, r1, u)"
    and step: "processRightHand env t (landmarks h) u = Some u'"
    and edge: "\<not> isPinchingRef u" "isPinchingRef u'"
  shows "lastClickTime (cursor s') = t"
proof -
  from right have notLeft: "handedness h \<noteq> ''Left''" by simp
  from run hs front have "processHands env t (h # post) l1 r1 u = Some (l', r', s')"
    by (simp add: processHands_append)
  with right notLeft step have rest: "processHands env t post l1 True u' = Some (l', r', s')"
    by simp
  from processRightHand_cursor(3) [OF step] edge have "lastClickTime (cursor u') = t"
    by simp
  with processHands_lastClickTime_range [OF rest] show ?thesis by auto
qed

lemma processHands_lastClickTime:
  assumes "processHands env t hs l r s = Some (l', r', s')"
  shows "lastClickTime (cursor s') =
     (if \<exists>pre h post l1 r1 u u'. hs = pre @ h # post \<and> handedness h = ''Right''
          \<and> processHands env t pre l r s = Some (l1, r1, u)
          \<and> processRightHand env t (landmarks h) u = Some u'
          \<and> \<not> isPinchingRef u \<and> isPinchingRef u'
      then t else lastClickTime (cursor s))"
proof (cases "\<exists>pre h post l1 r1 u u'. hs = pre @ h # post \<and> handedness h = ''Right''
          \<and> processHands env t pre l r s = Some (l1, r1, u)
          \<and> processRightHand env t (landmarks h) u = Some u'
          \<and> \<not> isPinchingRef u \<and> isPinchingRef u'")
  case True
  then obtain pre h post l1 r1 u u' where "hs = pre @ h # post" "handedness h = ''Right''"
    "processHands env t pre l r s = Some (l1, r1, u)"
    "processRightHand env t (landmarks h) u = Some u'"
    "\<not> isPinchingRef u" "isPinchingRef u'"
    by (elim exE conjE)
  from processHands_edge_stamps [OF assms this] have "lastClickTime (cursor s') = t" .
  then show ?thesis unfolding if_P [OF True] .
next
  case False
  have "lastClickTime (cursor s') = lastClickTime (cursor s)"
  proof (rule ccontr)
    assume "lastClickTime (cursor s') \<noteq> lastClickTime (cursor s)"
    from False processHands_edge_found [OF assms this] show False by (rule notE)
  qed
  then show ?thesis unfolding if_not_P [OF False] .
qed

lemma predictWebcam_right_seen:
  assumes "ready fr" and "observed ''Right'' fr" and "predictWebcam s fr = Some s'"
  shows "active (cursor s')" and "clicking (cursor s') = isPinchingRef s'"
proof -
  from predictWebcam_ready [OF assms(1,3)] assms(2) obtain s1 where
    ph: "processHands (document fr) (dateNow fr) (hands fr) False False s
          = Some (observed ''Left'' fr, True, s1)"
    and s': "s' =
        (let s2 = (if observed ''Left'' fr then s1\<lparr>lastLeftHandTime := dateNow fr\<rparr> else s1)
         in (if \<not> observed ''Left'' fr \<and> dateNow fr - lastLeftHandTime s2 > 500
                   then s2\<lparr>mode := AGGREGATE\<rparr> else s2))"
    by (auto simp: Let_def)
  from assms(2) have "list_ex (\<lambda>h. handedness h = ''Right'') (hands fr)"
    by (simp add: observed_def)
  then have "active (cursor s1) \<and> clicking (cursor s1) = isPinchingRef s1"
    using processHands_right_seen [OF ph] by simp
  with s' show "active (cursor s')" and "clicking (cursor s') = isPinchingRef s'"
    by (simp_all add: Let_def)
qed

lemma predictWebcam_lastClickTime:
  assumes "ready fr" and "predictWebcam s fr = Some s'"
  shows "lastClickTime (cursor s') =
     (if \<exists>pre h post l1 r1 u u'. hands fr = pre @ h # post \<and> handedness h = ''Right''
          \<and> processHands (document fr) (dateNow fr) pre False False s = Some (l1, r1, u)
          \<and> processRightHand (document fr) (dateNow fr) (landmarks h) u = Some u'
          \<and> \<not> isPinchingRef u \<and> isPinchingRef u'
      then dateNow fr else lastClickTime (cursor s))"
proof -
  from predictWebcam_ready [OF assms] obtain s1 where
    ph: "processHands (document fr) (dateNow fr) (hands fr) False False s
          = Some (observed ''Left'' fr, observed ''Right'' fr, s1)"
    and s': "s' =
        (let s2 = (if observed ''Left'' fr then s1\<lparr>lastLeftHandTime := dateNow fr\<rparr> else s1);
             s3 = (if \<not> observed ''Left'' fr \<and> dateNow fr - lastLeftHandTime s2 > 500
                   then s2\<lparr>mode := AGGREGATE\<rparr> else s2)
         in if observed ''Right'' fr then s3
            else resetDrag (s3\<lparr>cursor := (cursor s3)\<lparr>active := False,
                   clicking := (hands fr = [] \<and> clicking (cursor s3))\<rparr>\<rparr>))"
    by auto
  from s' have "lastClickTime (cursor s') = lastClickTime (cursor s1)"
    by (simp add: Let_def)
  with processHands_lastClickTime [OF ph] show ?thesis by simp
qed

lemma predictWebcam_no_hands:
  assumes "ready fr" and "hands fr = []" and "predictWebcam s fr = Some s'"
  shows "clicking (cursor s') = clicking (cursor s)" "isPinchingRef s' = isPinchingRef s"
proof -
  from predictWebcam_ready [OF assms(1,3)] assms(2) obtain s1 where
    ph: "processHands (document fr) (dateNow fr) [] False False s
          = Some (observed ''Left'' fr, observed ''Right'' fr, s1)"
    and s': "s' =
        (let s2 = (if observed ''Left'' fr then s1\<lparr>lastLeftHandTime := dateNow fr\<rparr> else s1);
             s3 = (if \<not> observed ''Left'' fr \<and> dateNow fr - lastLeftHandTime s2 > 500
                   then s2\<lparr>mode := AGGREGATE\<rparr> else s2)
         in if observed ''Right'' fr then s3
            else resetDrag (s3\<lparr>cursor := (cursor s3)\<lparr>active := False,
                   clicking := (hands fr = [] \<and> clicking (cursor s3))\<rparr>\<rparr>))"
    by auto
  from ph have "s1 = s" "\<not> observed ''Right'' fr" by simp_all
  with s' assms(2) show "clicking (cursor s') = clicking (cursor s)"
    "isPinchingRef s' = isPinchingRef s"
    by (simp_all add: Let_def)
qed

text \<open>
  C8, as the code has it. After every frame that is processed: \<open>active\<close> is true exactly
  when the frame held a Right observation. When it held one, \<open>clicking\<close> equals the
  debounced pinch state. When it held hands but no right hand, \<open>clicking\<close> is false, and
  when it held no hand at all \<open>clicking\<close> keeps its value; in both cases the debounced pinch
  state keeps its value (it may be true). \<open>lastClickTime\<close> keeps its value in a frame without
  a Right observation. In every frame it becomes the timestamp of the frame if the loop over
  the hands reaches a right hand, in the state \<open>u\<close> that the hands before it have left, whose
  processing turns the pinch state from false to true; and it keeps its value if no hand of
  the frame does so. A right hand by itself sets it to the timestamp on a rising edge and
  keeps it otherwise.
\<close>

theorem cursor_state_after_frame:
  "(ready fr \<and> wellFormed fr \<longrightarrow>
      (\<exists>s'. predictWebcam s fr = Some s'
         \<and> active (cursor s') = observed ''Right'' fr
         \<and> (observed ''Right'' fr \<longrightarrow> clicking (cursor s') = isPinchingRef s')
         \<and> (\<not> observed ''Right'' fr \<and> hands fr \<noteq> [] \<longrightarrow>
              \<not> clicking (cursor s') \<and> isPinchingRef s' = isPinchingRef s)
         \<and> (hands fr = [] \<longrightarrow>
              clicking (cursor s') = clicking (cursor s) \<and> isPinchingRef s' = isPinchingRef s)
         \<and> (\<not> observed ''Right'' fr \<longrightarrow>
              lastClickTime (cursor s') = lastClickTime (cursor s))
         \<and> lastClickTime (cursor s') =
             (if \<exists>pre h post l1 r1 u u'. hands fr = pre @ h # post
                   \<and> handedness h = ''Right''
                   \<and> processHands (document fr) (dateNow fr) pre False False s
                       = Some (l1, r1, u)
                   \<and> processRightHand (document fr) (dateNow fr) (landmarks h) u = Some u'
                   \<and> \<not> isPinchingRef u \<and> isPinchingRef u'
              then dateNow fr else lastClickTime (cursor s))))
   \<and> (length lms = 21 \<longrightarrow>
      (\<exists>s'. processRightHand env t lms s = Some s'
         \<and> lastClickTime (cursor s') =
             (if isPinchingRef s' \<and> \<not> isPinchingRef s then t
              else lastClickTime (cursor s))))"
proof (intro conjI impI)
  assume a: "ready fr \<and> wellFormed fr"
  then obtain s' where s': "predictWebcam s fr = Some s'"
    using predictWebcam_total [of fr s] by auto
  from a have r: "ready fr" by simp
  have act: "active (cursor s') = observed ''Right'' fr"
    using predictWebcam_right_seen(1) [OF r _ s'] predictWebcam_no_right(7) [OF r _ s']
    by (cases "observed ''Right'' fr") simp_all
  have clk: "observed ''Right'' fr \<longrightarrow> clicking (cursor s') = isPinchingRef s'"
    using predictWebcam_right_seen(2) [OF r _ s'] by simp
  have lost: "\<not> observed ''Right'' fr \<and> hands fr \<noteq> [] \<longrightarrow>
              \<not> clicking (cursor s') \<and> isPinchingRef s' = isPinchingRef s"
    using predictWebcam_no_right(4,8) [OF r _ s'] by simp
  have none: "hands fr = [] \<longrightarrow>
              clicking (cursor s') = clicking (cursor s) \<and> isPinchingRef s' = isPinchingRef s"
    using predictWebcam_no_hands [OF r _ s'] by simp
  have keep: "\<not> observed ''Right'' fr \<longrightarrow>
              lastClickTime (cursor s') = lastClickTime (cursor s)"
    using predictWebcam_no_right(6) [OF r _ s'] by simp
  note edge = predictWebcam_lastClickTime [OF r s']
  show "\<exists>s'. predictWebcam s fr = Some s'
         \<and> active (cursor s') = observed ''Right'' fr
         \<and> (observed ''Right'' fr \<longrightarrow> clicking (cursor s') = isPinchingRef s')
         \<and> (\<not> observed ''Right'' fr \<and> hands fr \<noteq> [] \<longrightarrow>
              \<not> clicking (cursor s') \<and> isPinchingRef s' = isPinchingRef s)
         \<and> (hands fr = [] \<longrightarrow>
              clicking (cursor s') = clicking (cursor s) \<and> isPinchingRef s' = isPinchingRef s)
         \<and> (\<not> observed ''Right'' fr \<longrightarrow>
              lastClickTime (cursor s') = lastClickTime (cursor s))
         \<and> lastClickTime (cursor s') =
             (if \<exists>pre h post l1 r1 u u'. hands fr = pre @ h # post
                   \<and> handedness h = ''Right''
                   \<and> processHands (document fr) (dateNow fr) pre False False s
                       = Some (l1, r1, u)
                   \<and> processRightHand (document fr) (dateNow fr) (landmarks h) u = Some u'
                   \<and> \<not> isPinchingRef u \<and> isPinchingRef u'
              then dateNow fr else lastClickTime (cursor s))"
    apply (rule exI [of _ s'])
    apply (intro conjI)
          apply (rule s')
         apply (rule act)
        apply (rule clk)
       apply (rule lost)
      apply (rule none)
     apply (rule keep)
    apply (rule edge)
    done
next
  assume "length lms = 21"
  then obtain s' where s': "processRightHand env t lms s = Some s'"
    using processRightHand_total [of lms env t s] by auto
  with processRightHand_cursor(3) [OF s']
  show "\<exists>s'. processRightHand env t lms s = Some s'
         \<and> lastClickTime (cursor s') =
             (if isPinchingRef s' \<and> \<not> isPinchingRef s then t
              else lastClickTime (cursor s))"
    by blast
qed

theorem cursor_state_after_frame_witness:
  "(\<exists>s'. predictWebcam (initialState\<lparr>isPinchingRef := True\<rparr>) (frameAt 7 [leftFist 0.3])
        = Some s'
      \<and> \<not> active (cursor s') \<and> \<not> clicking (cursor s') \<and> isPinchingRef s'
      \<and> lastClickTime (cursor s') = 0)
   \<and> (\<exists>s'. predictWebcam initialState (frameAt 7 [rightHand 0.01]) = Some s'
      \<and> active (cursor s') \<and> clicking (cursor s') = isPinchingRef s'
      \<and> lastClickTime (cursor s') = 7)
   \<and> (\<exists>s'. predictWebcam afterPress (frameAt 16 [rightHandAt 0 0.01]) = Some s'
      \<and> isPinchingRef s' \<and> lastClickTime (cursor s') = 0)
   \<and> (\<exists>s'. predictWebcam afterDrag (frameAt 48 []) = Some s'
      \<and> clicking (cursor s') \<and> isPinchingRef s')
   \<and> (\<exists>s'. processRightHand page 7 (fistPoints 0.01) initialState = Some s'
      \<and> lastClickTime (cursor s') = (if isPinchingRef s' then 7 else 0))"
proof -
  have fr1: "ready (frameAt 7 [leftFist 0.3])" "wellFormed (frameAt 7 [leftFist 0.3])"
    "\<not> observed ''Right'' (frameAt 7 [leftFist 0.3])" "hands (frameAt 7 [leftFist 0.3]) \<noteq> []"
    and fr2: "ready (frameAt 7 [rightHand 0.01])" "wellFormed (frameAt 7 [rightHand 0.01])"
    "observed ''Right'' (frameAt 7 [rightHand 0.01])"
    and fr3: "ready (frameAt 16 [rightHandAt 0 0.01])"
    "wellFormed (frameAt 16 [rightHandAt 0 0.01])"
    and fr4: "ready (frameAt 48 [])" "wellFormed (frameAt 48 [])" "hands (frameAt 48 []) = []"
    by (simp_all add: frameAt_def wellFormed_def observed_def hands_def leftFist_def
        rightHand_def rightHandAt_def)
  from fr1 cursor_state_after_frame [where fr = "frameAt 7 [leftFist 0.3]"
      and s = "initialState\<lparr>isPinchingRef := True\<rparr>", THEN conjunct1]
  have one: "\<exists>s'. predictWebcam (initialState\<lparr>isPinchingRef := True\<rparr>)
          (frameAt 7 [leftFist 0.3]) = Some s'
      \<and> \<not> active (cursor s') \<and> \<not> clicking (cursor s') \<and> isPinchingRef s'
      \<and> lastClickTime (cursor s') = 0"
    by auto
  obtain u' where u': "processRightHand page 7 (fistPoints 0.01) initialState = Some u'"
    using processRightHand_total [of "fistPoints 0.01" page 7 initialState] by auto
  from processRightHand_pinch [OF u'] have pinch: "isPinchingRef u'"
    by (simp add: PINCH_THRESHOLD_ON_def)
  have edge: "\<exists>pre h post l1 r1 u u'. hands (frameAt 7 [rightHand 0.01]) = pre @ h # post
      \<and> handedness h = ''Right''
      \<and> processHands (document (frameAt 7 [rightHand 0.01]))
          (dateNow (frameAt 7 [rightHand 0.01])) pre False False initialState
            = Some (l1, r1, u)
      \<and> processRightHand (document (frameAt 7 [rightHand 0.01]))
          (dateNow (frameAt 7 [rightHand 0.01])) (landmarks h) u = Some u'
      \<and> \<not> isPinchingRef u \<and> isPinchingRef u'"
    using u' pinch
    by (intro exI [of _ "[]"] exI [of _ "rightHand 0.01"] exI [of _ False]
        exI [of _ initialState] exI [of _ u'])
      (simp add: frameAt_def hands_def rightHand_def)
  from fr2 cursor_state_after_frame [where fr = "frameAt 7 [rightHand 0.01]"
      and s = initialState, THEN conjunct1]
  have two: "\<exists>s'. predictWebcam initialState (frameAt 7 [rightHand 0.01]) = Some s'
      \<and> active (cursor s') \<and> clicking (cursor s') = isPinchingRef s'
      \<and> lastClickTime (cursor s') = 7"
    unfolding if_P [OF edge] by (auto simp: frameAt_def)
  have noEdge: "\<not> (\<exists>pre h post l1 r1 u u'.
        hands (frameAt 16 [rightHandAt 0 0.01]) = pre @ h # post
      \<and> handedness h = ''Right''
      \<and> processHands (document (frameAt 16 [rightHandAt 0 0.01]))
          (dateNow (frameAt 16 [rightHandAt 0 0.01])) pre False False afterPress
            = Some (l1, r1, u)
      \<and> processRightHand (document (frameAt 16 [rightHandAt 0 0.01]))
          (dateNow (frameAt 16 [rightHandAt 0 0.01])) (landmarks h) u = Some u'
      \<and> \<not> isPinchingRef u \<and> isPinchingRef u')"
    by (auto simp: frameAt_def hands_def Cons_eq_append_conv afterPress_def)
  from fr3 cursor_state_after_frame [where fr = "frameAt 16 [rightHandAt 0 0.01]"
      and s = afterPress, THEN conjunct1]
  have three: "\<exists>s'. predictWebcam afterPress (frameAt 16 [rightHandAt 0 0.01]) = Some s'
      \<and> isPinchingRef s' \<and> lastClickTime (cursor s') = 0"
    unfolding if_not_P [OF noEdge] using frame_drag
    by (auto simp: afterPress_def afterDrag_def)
  from fr4 cursor_state_after_frame [where fr = "frameAt 48 []" and s = afterDrag,
      THEN conjunct1]
  have four: "\<exists>s'. predictWebcam afterDrag (frameAt 48 []) = Some s'
      \<and> clicking (cursor s') \<and> isPinchingRef s'"
    by (auto simp: afterDrag_def afterPress_def)
  from cursor_state_after_frame [where lms = "fistPoints 0.01" and env = page
      and t = 7 and s = initialState, THEN conjunct2]
  have five: "\<exists>s'. processRightHand page 7 (fistPoints 0.01) initialState = Some s'
      \<and> lastClickTime (cursor s') = (if isPinchingRef s' then 7 else 0)"
    by (auto split: if_splits)
  from one two three four five show ?thesis by blast
qed

text \<open>
  C8 as stated fails on the drag above: after the frame in which the right hand is lost
  while a left hand is there, \<open>clicking\<close> is false and the debounced pinch state is true.
\<close>

theorem cursor_state_after_frame_counterexample:
  "runFrames initialState
     [frameAt 0 [rightHandAt 0.8 0.01], frameAt 16 [rightHandAt 0 0.01],
      frameAt 32 [leftFist 0.3]] = Some afterLoss
   \<and> clicking (cursor afterLoss) = False
   \<and> isPinchingRef afterLoss = True"
  using frame_press frame_drag frame_loss
  by (simp add: afterLoss_def afterDrag_def afterPress_def)

section \<open>A pinch that is held\<close>

lemma handleCursorInteraction_events:
  "\<exists>evs. events (handleCursorInteraction env x y d isDown wasDown s) = events s @ evs
     \<and> (isDown \<and> \<not> wasDown \<or> list_all (\<lambda>e. \<not> isPress e) evs)"
  by (cases "elementFromPoint env x y"; cases "lastHoveredElement s";
      cases "scrollContainer env")
    (auto simp: handleCursorInteraction_def Let_def)


lemma processRightHand_anchor:
  assumes "processRightHand env t lms s = Some s'"
  shows "anchorPos s' =
     (if isPinchingRef s'
      then (if isPinchingRef s then anchorPos s
            else Some (the (ema_value (cursorX_EMA s')), the (ema_value (cursorY_EMA s'))))
      else if isPinchingRef s then None else anchorPos s)"
  using processRightHand_unfold [OF assms] by (auto simp: EMA_update_stores)


lemma processRightHand_dispatch:
  assumes "processRightHand env t lms s = Some s'"
  shows "\<exists>x y d s0.
      s' = handleCursorInteraction env x y d (isPinchingRef s0) (isPinchingRef s) s0
    \<and> events s0 = events s
        @ (if isPinchingRef s0 \<and> \<not> isPinchingRef s then [PlaySound ''click''] else [])
    \<and> isDraggingUI s0 = isDraggingUI s \<and> dragTarget s0 = dragTarget s
    \<and> lastHoveredElement s0 = lastHoveredElement s
    \<and> cur_x (cursor s0) = x \<and> cur_y (cursor s0) = y"
  using processRightHand_unfold [OF assms]
  apply (elim exE conjE)
  subgoal for sx sy pn a1 ox oy s0
    apply (rule exI [of _ ox], rule exI [of _ oy])
    apply (rule exI [of _ "oy - snd (lastCursorPos s)"], rule exI [of _ s0])
    apply simp
    done
  done

lemma processRightHand_events:
  assumes "processRightHand env t lms s = Some s'"
  shows "\<exists>evs. events s' = events s @ evs
     \<and> (isPinchingRef s' \<and> \<not> isPinchingRef s \<or> list_all (\<lambda>e. \<not> isPress e) evs)"
proof -
  from processRightHand_dispatch [OF assms] obtain x y d s0 where
    s': "s' = handleCursorInteraction env x y d (isPinchingRef s0) (isPinchingRef s) s0"
    and e0: "events s0 = events s
                @ (if isPinchingRef s0 \<and> \<not> isPinchingRef s then [PlaySound ''click''] else [])"
    by blast
  from handleCursorInteraction_events [of env x y d "isPinchingRef s0" "isPinchingRef s" s0]
  obtain evs where "events s' = events s0 @ evs"
    and "isPinchingRef s0 \<and> \<not> isPinchingRef s \<or> list_all (\<lambda>e. \<not> isPress e) evs"
    unfolding s' by blast
  with e0 s' show ?thesis by auto
qed

lemma processRightHand_held:
  assumes "processRightHand env t lms s = Some s'"
    and "isPinchingRef s" and "pinchDistance lms \<le> PINCH_THRESHOLD_OFF"
  shows "isPinchingRef s'" and "anchorPos s' = anchorPos s"
    and "lastClickTime (cursor s') = lastClickTime (cursor s)"
    and "\<exists>evs. events s' = events s @ evs \<and> list_all (\<lambda>e. \<not> isPress e) evs"
proof -
  from processRightHand_pinch [OF assms(1)] assms(2,3)
  show p: "isPinchingRef s'" by simp
  with processRightHand_cursor(3) [OF assms(1)] assms(2)
  show "lastClickTime (cursor s') = lastClickTime (cursor s)" by simp
  from processRightHand_anchor [OF assms(1)] p assms(2)
  show "anchorPos s' = anchorPos s" by simp
  from processRightHand_events [OF assms(1)] assms(2)
  show "\<exists>evs. events s' = events s @ evs \<and> list_all (\<lambda>e. \<not> isPress e) evs"
    by simp
qed

lemma processHands_held:
  assumes "processHands env t hs l r s = Some (l', r', s')"
    and "isPinchingRef s"
    and "\<forall>h \<in> set hs. handedness h = ''Right'' \<longrightarrow>
           pinchDistance (landmarks h) \<le> PINCH_THRESHOLD_OFF"
  shows "isPinchingRef s' \<and> anchorPos s' = anchorPos s
     \<and> lastClickTime (cursor s') = lastClickTime (cursor s)
     \<and> (\<exists>evs. events s' = events s @ evs \<and> list_all (\<lambda>e. \<not> isPress e) evs)"
  using assms
proof (induction hs arbitrary: l r s)
  case Nil
  then show ?case by simp
next
  case (Cons h hs)
  show ?case
  proof (cases "handedness h = ''Left''")
    case True
    with Cons.prems(1) obtain s1 where s1: "processLeftHand (landmarks h) s = Some s1"
      and rest: "processHands env t hs True r s1 = Some (l', r', s')"
      by (auto split: option.splits)
    note same = processLeftHand_right_fields [OF s1]
    from Cons.prems(2) same(1) have "isPinchingRef s1" by simp
    from Cons.IH [OF rest this] Cons.prems(3) same show ?thesis by simp
  next
    case False
    show ?thesis
    proof (cases "handedness h = ''Right''")
      case True
      with False Cons.prems(1) obtain s1 where
        s1: "processRightHand env t (landmarks h) s = Some s1"
        and rest: "processHands env t hs l True s1 = Some (l', r', s')"
        by (auto split: option.splits)
      from True Cons.prems(3) have d: "pinchDistance (landmarks h) \<le> PINCH_THRESHOLD_OFF"
        by simp
      note held = processRightHand_held [OF s1 Cons.prems(2) d]
      from held(4) obtain evs1 where evs1: "events s1 = events s @ evs1"
        "list_all (\<lambda>e. \<not> isPress e) evs1"
        by blast
      from Cons.IH [OF rest held(1)] Cons.prems(3) obtain evs2 where
        "isPinchingRef s'" "anchorPos s' = anchorPos s1"
        "lastClickTime (cursor s') = lastClickTime (cursor s1)"
        "events s' = events s1 @ evs2" "list_all (\<lambda>e. \<not> isPress e) evs2"
        by auto
      with held(2,3) evs1 have "isPinchingRef s' \<and> anchorPos s' = anchorPos s
         \<and> lastClickTime (cursor s') = lastClickTime (cursor s)
         \<and> events s' = events s @ (evs1 @ evs2)
         \<and> list_all (\<lambda>e. \<not> isPress e) (evs1 @ evs2)"
        by simp
      then show ?thesis by blast
    next
      case notRight: False
      with False Cons.prems(1) have rest: "processHands env t hs l r s = Some (l', r', s')"
        by simp
      from Cons.IH [OF rest Cons.prems(2)] Cons.prems(3) show ?thesis by simp
    qed
  qed
qed

lemma predictWebcam_held:
  assumes "ready fr" and "observed ''Right'' fr" and "predictWebcam s fr = Some s'"
    and "isPinchingRef s"
    and "\<forall>h \<in> set (hands fr). handedness h = ''Right'' \<longrightarrow>
           pinchDistance (landmarks h) \<le> PINCH_THRESHOLD_OFF"
  shows "isPinchingRef s' \<and> anchorPos s' = anchorPos s
     \<and> lastClickTime (cursor s') = lastClickTime (cursor s)
     \<and> (\<exists>evs. events s' = events s @ evs \<and> list_all (\<lambda>e. \<not> isPress e) evs)"
proof -
  from predictWebcam_ready [OF assms(1,3)] assms(2) obtain s1 where
    ph: "processHands (document fr) (dateNow fr) (hands fr) False False s
          = Some (observed ''Left'' fr, True, s1)"
    and s': "s' =
        (let s2 = (if observed ''Left'' fr then s1\<lparr>lastLeftHandTime := dateNow fr\<rparr> else s1)
         in (if \<not> observed ''Left'' fr \<and> dateNow fr - lastLeftHandTime s2 > 500
                   then s2\<lparr>mode := AGGREGATE\<rparr> else s2))"
    by (auto simp: Let_def)
  from s' have "isPinchingRef s' = isPinchingRef s1" "anchorPos s' = anchorPos s1"
    "cursor s' = cursor s1" "events s' = events s1"
    by (simp_all add: Let_def)
  with processHands_held [OF ph assms(4,5)] show ?thesis by simp
qed

lemma runFrames_no_right:
  assumes "runFrames s frs = Some s'" and "\<forall>f \<in> set frs. \<not> observed ''Right'' f"
  shows "isPinchingRef s' = isPinchingRef s \<and> anchorPos s' = anchorPos s
     \<and> lastClickTime (cursor s') = lastClickTime (cursor s)"
  using assms
proof (induction frs arbitrary: s)
  case Nil
  then show ?case by simp
next
  case (Cons f frs)
  from Cons.prems(1) obtain s1 where s1: "predictWebcam s f = Some s1"
    and rest: "runFrames s1 frs = Some s'"
    by (auto split: option.splits)
  have "isPinchingRef s1 = isPinchingRef s \<and> anchorPos s1 = anchorPos s
     \<and> lastClickTime (cursor s1) = lastClickTime (cursor s)"
  proof (cases "ready f")
    case True
    from Cons.prems(2) have "\<not> observed ''Right'' f" by simp
    from predictWebcam_no_right(4-6) [OF True this s1] show ?thesis by simp
  next
    case False
    with s1 show ?thesis by (simp add: predictWebcam_not_ready)
  qed
  with Cons.IH [OF rest] Cons.prems(2) show ?case by simp
qed

text \<open>
  C10. Let the pinching state be true, let the right hand be absent from any number of
  frames, and let it then be observed in a frame that is processed, each right hand of that
  frame with a thumb-to-index distance below the ON threshold. Then all these frames are
  processed, the pinching state is true before and after the last of them, none of the
  events that this frame dispatches is a \<^verbatim>\<open>pointerdown\<close> or a \<^verbatim>\<open>mousedown\<close>, and
  the anchor and \<open>lastClickTime\<close> are what they were when the hand was lost.
\<close>

theorem no_rising_edge_on_reappearance:
  "isPinchingRef s
   \<and> list_all wellFormed mid \<and> (\<forall>f \<in> set mid. \<not> observed ''Right'' f)
   \<and> ready fr \<and> wellFormed fr \<and> observed ''Right'' fr
   \<and> (\<forall>h \<in> set (hands fr). handedness h = ''Right'' \<longrightarrow>
         pinchDistance (landmarks h) < PINCH_THRESHOLD_ON)
   \<longrightarrow> (\<exists>s1 s2 evs. runFrames s mid = Some s1 \<and> predictWebcam s1 fr = Some s2
         \<and> isPinchingRef s1 \<and> isPinchingRef s2
         \<and> events s2 = events s1 @ evs \<and> list_all (\<lambda>e. \<not> isPress e) evs
         \<and> anchorPos s2 = anchorPos s
         \<and> lastClickTime (cursor s2) = lastClickTime (cursor s))"
proof
  assume a: "isPinchingRef s
   \<and> list_all wellFormed mid \<and> (\<forall>f \<in> set mid. \<not> observed ''Right'' f)
   \<and> ready fr \<and> wellFormed fr \<and> observed ''Right'' fr
   \<and> (\<forall>h \<in> set (hands fr). handedness h = ''Right'' \<longrightarrow>
         pinchDistance (landmarks h) < PINCH_THRESHOLD_ON)"
  then obtain s1 where s1: "runFrames s mid = Some s1"
    using runFrames_total [of mid s] by auto
  from a obtain s2 where s2: "predictWebcam s1 fr = Some s2"
    using predictWebcam_total [of fr s1] by auto
  from a runFrames_no_right [OF s1] have keep: "isPinchingRef s1" "anchorPos s1 = anchorPos s"
    "lastClickTime (cursor s1) = lastClickTime (cursor s)"
    by simp_all
  have "PINCH_THRESHOLD_ON < PINCH_THRESHOLD_OFF"
    by (simp add: PINCH_THRESHOLD_ON_def PINCH_THRESHOLD_OFF_def)
  with a have "\<forall>h \<in> set (hands fr). handedness h = ''Right'' \<longrightarrow>
           pinchDistance (landmarks h) \<le> PINCH_THRESHOLD_OFF"
    by fastforce
  with a predictWebcam_held [OF _ _ s2 keep(1)] obtain evs where
    "isPinchingRef s2" "anchorPos s2 = anchorPos s1"
    "lastClickTime (cursor s2) = lastClickTime (cursor s1)"
    "events s2 = events s1 @ evs" "list_all (\<lambda>e. \<not> isPress e) evs"
    by auto
  with s1 s2 keep show "\<exists>s1 s2 evs. runFrames s mid = Some s1 \<and> predictWebcam s1 fr = Some s2
         \<and> isPinchingRef s1 \<and> isPinchingRef s2
         \<and> events s2 = events s1 @ evs \<and> list_all (\<lambda>e. \<not> isPress e) evs
         \<and> anchorPos s2 = anchorPos s
         \<and> lastClickTime (cursor s2) = lastClickTime (cursor s)"
    by auto
qed

theorem no_rising_edge_on_reappearance_witness:
  "\<exists>s1 s2 evs. runFrames afterDrag [frameAt 32 [leftFist 0.3]] = Some s1
     \<and> predictWebcam s1 (frameAt 48 [rightHandAt 0 0.01]) = Some s2
     \<and> isPinchingRef s1 \<and> isPinchingRef s2
     \<and> events s2 = events s1 @ evs \<and> list_all (\<lambda>e. \<not> isPress e) evs
     \<and> anchorPos s2 = Some (200, 0)
     \<and> lastClickTime (cursor s2) = 0"
proof -
  have "isPinchingRef afterDrag" "anchorPos afterDrag = Some (200, 0)"
    "lastClickTime (cursor afterDrag) = 0"
    by (simp_all add: afterDrag_def afterPress_def)
  moreover have "list_all wellFormed [frameAt 32 [leftFist 0.3]]"
    "\<forall>f \<in> set [frameAt 32 [leftFist 0.3]]. \<not> observed ''Right'' f"
    "ready (frameAt 48 [rightHandAt 0 0.01])" "wellFormed (frameAt 48 [rightHandAt 0 0.01])"
    "observed ''Right'' (frameAt 48 [rightHandAt 0 0.01])"
    "\<forall>h \<in> set (hands (frameAt 48 [rightHandAt 0 0.01])). handedness h = ''Right'' \<longrightarrow>
         pinchDistance (landmarks h) < PINCH_THRESHOLD_ON"
    by (simp_all add: frameAt_def wellFormed_def observed_def hands_def leftFist_def
        rightHandAt_def PINCH_THRESHOLD_ON_def)
  ultimately show ?thesis
    using no_rising_edge_on_reappearance [of afterDrag "[frameAt 32 [leftFist 0.3]]"
        "frameAt 48 [rightHandAt 0 0.01]"]
    by simp
qed

section \<open>The anchor\<close>










section \<open>Pointer capture\<close>

text \<open>
  The events of the dispatcher: first those of the hover simulation, then those of the click
  and drag logic.
\<close>

lemma handleCursorInteraction_dispatched:
  "events (handleCursorInteraction env x y d isDown wasDown s) =
     events s
     @ (if elementFromPoint env x y \<noteq> lastHoveredElement s
        then (case lastHoveredElement s of
                Some old \<Rightarrow> [Dispatch old mouseout 0 0 False, Dispatch old pointerout 0 0 False]
              | None \<Rightarrow> [])
           @ (case elementFromPoint env x y of
                Some el \<Rightarrow> [Dispatch el mouseover 0 0 False, Dispatch el pointerover 0 0 False]
              | None \<Rightarrow> [])
        else [])
     @ (case elementFromPoint env x y of
          Some el \<Rightarrow> [Dispatch el pointermove x y False]
        | None \<Rightarrow> [])
     @ (if isDown \<and> \<not> wasDown then
          (case elementFromPoint env x y of
             Some el \<Rightarrow> [Dispatch el pointerdown x y True, Dispatch el mousedown x y False]
           | None \<Rightarrow> [])
        else if isDown \<and> wasDown \<and> isDraggingUI s \<and> dragTarget s \<noteq> None then
          (case scrollContainer env of
             Some sc \<Rightarrow>
               if sc = the (dragTarget s) \<or> node_contains env sc (the (dragTarget s))
               then [ScrollTopSub sc d] else []
           | None \<Rightarrow> [])
          @ [Dispatch (the (dragTarget s)) pointermove x y True]
        else if \<not> isDown \<and> wasDown \<and> isDraggingUI s \<and> dragTarget s \<noteq> None then
          [Dispatch (the (dragTarget s)) pointerup x y True,
           Dispatch (the (dragTarget s)) mouseup x y False,
           Dispatch (the (dragTarget s)) click x y False]
        else [])"
  by (cases "elementFromPoint env x y"; cases "lastHoveredElement s"; cases "dragTarget s";
      cases "scrollContainer env")
    (simp_all add: handleCursorInteraction_def Let_def)

lemma handleCursorInteraction_lastHoveredElement:
  "lastHoveredElement (handleCursorInteraction env x y d isDown wasDown s) =
     elementFromPoint env x y"
  by (cases "elementFromPoint env x y"; cases "dragTarget s"; cases "lastHoveredElement s")
    (simp_all add: handleCursorInteraction_def Let_def)

lemma handleCursorInteraction_isDraggingUI:
  "isDraggingUI (handleCursorInteraction env x y d isDown wasDown s) =
     (if isDown \<and> \<not> wasDown then elementFromPoint env x y \<noteq> None \<or> isDraggingUI s
      else if \<not> isDown \<and> wasDown \<and> isDraggingUI s \<and> dragTarget s \<noteq> None then False
      else isDraggingUI s)"
  by (cases "elementFromPoint env x y"; cases "dragTarget s"; cases "lastHoveredElement s")
    (simp_all add: handleCursorInteraction_def Let_def)

lemma handleCursorInteraction_dragTarget:
  "dragTarget (handleCursorInteraction env x y d isDown wasDown s) =
     (if isDown \<and> \<not> wasDown then
        (case elementFromPoint env x y of Some el \<Rightarrow> Some el | None \<Rightarrow> dragTarget s)
      else if \<not> isDown \<and> wasDown \<and> isDraggingUI s \<and> dragTarget s \<noteq> None then None
      else dragTarget s)"
  by (cases "elementFromPoint env x y"; cases "dragTarget s"; cases "lastHoveredElement s")
    (simp_all add: handleCursorInteraction_def Let_def)


lemma processRightHand_dispatch_delta:
  assumes "processRightHand env t lms s = Some s'"
  shows "\<exists>s0.
      s' = handleCursorInteraction env (cur_x (cursor s0)) (cur_y (cursor s0))
             (cur_y (cursor s0) - snd (lastCursorPos s)) (isPinchingRef s0) (isPinchingRef s) s0
    \<and> events s0 = events s
        @ (if isPinchingRef s0 \<and> \<not> isPinchingRef s then [PlaySound ''click''] else [])
    \<and> isDraggingUI s0 = isDraggingUI s \<and> dragTarget s0 = dragTarget s
    \<and> lastHoveredElement s0 = lastHoveredElement s"
  using processRightHand_unfold [OF assms]
  apply (elim exE conjE)
  subgoal for sx sy pn a1 ox oy s0
    apply (rule exI [of _ s0])
    apply simp
    done
  done

lemma step_press:
  "processRightHand page 0 (pointingPoints 0.8 0.01) initialState = Some afterPress"
  by (simp add: right_eval afterPress_def)

lemma step_drag:
  "processRightHand page 16 (pointingPoints 0 0.01) afterPress = Some afterDrag"
  by (simp add: right_eval afterPress_def afterDrag_def)

lemma step_release:
  "processRightHand page 32 (pointingPoints 0 0.08) afterDrag = Some afterRelease"
  by (simp add: right_eval afterPress_def afterDrag_def afterRelease_def)

text \<open>
  C7, as the code has it. A right hand of 21 landmarks is processed; let \<open>(x, y)\<close> be the
  position of the cursor afterwards and \<open>under\<close> the element at this position. The frame
  first dispatches the events \<open>hover\<close> of the hover simulation: when \<open>under\<close> is not the
  element hovered before, \<^verbatim>\<open>mouseout\<close> and \<^verbatim>\<open>pointerout\<close> to the element hovered before
  and \<^verbatim>\<open>mouseover\<close> and \<^verbatim>\<open>pointerover\<close> to \<open>under\<close> (each pair if there is such an
  element); then a \<^verbatim>\<open>pointermove\<close> at \<open>(x, y)\<close>, not primary, to \<open>under\<close>. On a rising
  edge of the pinch over an element \<open>E\<close> the frame plays the sound, dispatches \<open>hover\<close> and
  ends with \<^verbatim>\<open>pointerdown\<close> and \<^verbatim>\<open>mousedown\<close> on \<open>E\<close> at \<open>(x, y)\<close>, and the drag session
  on \<open>E\<close> is open. With the session on \<open>E\<close> open and the pinch sustained, the frame
  dispatches \<open>hover\<close>, scrolls the container if it is or contains \<open>E\<close>, and ends with a
  primary \<^verbatim>\<open>pointermove\<close> on \<open>E\<close> at \<open>(x, y)\<close>, whatever is under the cursor; the session
  stays open on \<open>E\<close>. With the session on \<open>E\<close> open and the pinch released, the frame
  dispatches \<open>hover\<close> and ends with \<^verbatim>\<open>pointerup\<close>, \<^verbatim>\<open>mouseup\<close> and \<^verbatim>\<open>click\<close> on \<open>E\<close> at
  \<open>(x, y)\<close>, and the session is cleared. These are all the effects of the frame.
\<close>

theorem drag_capture:
  "length lms = 21 \<longrightarrow>
     (\<exists>s'. processRightHand env t lms s = Some s'
        \<and> (let x = cur_x (cursor s'); y = cur_y (cursor s');
               under = elementFromPoint env x y;
               hover =
                 (if under \<noteq> lastHoveredElement s
                  then (case lastHoveredElement s of
                          Some old \<Rightarrow> [Dispatch old mouseout 0 0 False,
                                       Dispatch old pointerout 0 0 False]
                        | None \<Rightarrow> [])
                     @ (case under of
                          Some el \<Rightarrow> [Dispatch el mouseover 0 0 False,
                                      Dispatch el pointerover 0 0 False]
                        | None \<Rightarrow> [])
                  else [])
                 @ (case under of
                      Some el \<Rightarrow> [Dispatch el pointermove x y False]
                    | None \<Rightarrow> []);
               scroll =
                 (case scrollContainer env of
                    Some sc \<Rightarrow>
                      if sc = E \<or> node_contains env sc E
                      then [ScrollTopSub sc (y - snd (lastCursorPos s))] else []
                  | None \<Rightarrow> [])
           in lastHoveredElement s' = under
            \<and> (\<not> isPinchingRef s \<and> isPinchingRef s' \<and> under = Some E \<longrightarrow>
                 events s' = events s @ [PlaySound ''click''] @ hover
                   @ [Dispatch E pointerdown x y True, Dispatch E mousedown x y False]
                 \<and> isDraggingUI s' \<and> dragTarget s' = Some E)
            \<and> (isPinchingRef s \<and> isPinchingRef s' \<and> isDraggingUI s \<and> dragTarget s = Some E
                 \<longrightarrow>
                 events s' = events s @ hover @ scroll @ [Dispatch E pointermove x y True]
                 \<and> isDraggingUI s' \<and> dragTarget s' = Some E)
            \<and> (isPinchingRef s \<and> \<not> isPinchingRef s' \<and> isDraggingUI s
                 \<and> dragTarget s = Some E \<longrightarrow>
                 events s' = events s @ hover
                   @ [Dispatch E pointerup x y True, Dispatch E mouseup x y False,
                      Dispatch E click x y False]
                 \<and> \<not> isDraggingUI s' \<and> dragTarget s' = None)))"
proof
  assume "length lms = 21"
  then obtain s' where s': "processRightHand env t lms s = Some s'"
    using processRightHand_total [of lms env t s] by auto
  from processRightHand_dispatch_delta [OF s'] obtain s0 where
    hci: "s' = handleCursorInteraction env (cur_x (cursor s0)) (cur_y (cursor s0))
             (cur_y (cursor s0) - snd (lastCursorPos s)) (isPinchingRef s0) (isPinchingRef s) s0"
    and e0: "events s0 = events s
        @ (if isPinchingRef s0 \<and> \<not> isPinchingRef s then [PlaySound ''click''] else [])"
    and d0: "isDraggingUI s0 = isDraggingUI s" "dragTarget s0 = dragTarget s"
    and h0: "lastHoveredElement s0 = lastHoveredElement s"
    by (elim exE conjE)
  from hci have p: "isPinchingRef s' = isPinchingRef s0" and c: "cursor s' = cursor s0"
    by simp_all
  note ev = handleCursorInteraction_dispatched
    [of env "cur_x (cursor s0)" "cur_y (cursor s0)"
      "cur_y (cursor s0) - snd (lastCursorPos s)" "isPinchingRef s0" "isPinchingRef s" s0,
      folded hci]
  note sess = handleCursorInteraction_isDraggingUI
    [of env "cur_x (cursor s0)" "cur_y (cursor s0)"
      "cur_y (cursor s0) - snd (lastCursorPos s)" "isPinchingRef s0" "isPinchingRef s" s0,
      folded hci]
    handleCursorInteraction_dragTarget
    [of env "cur_x (cursor s0)" "cur_y (cursor s0)"
      "cur_y (cursor s0) - snd (lastCursorPos s)" "isPinchingRef s0" "isPinchingRef s" s0,
      folded hci]
    handleCursorInteraction_lastHoveredElement
    [of env "cur_x (cursor s0)" "cur_y (cursor s0)"
      "cur_y (cursor s0) - snd (lastCursorPos s)" "isPinchingRef s0" "isPinchingRef s" s0,
      folded hci]
  note ev1 = ev [unfolded e0 d0 h0, folded c p]
  note sess1 = sess [unfolded d0, folded c p]
  have main: "(let x = cur_x (cursor s'); y = cur_y (cursor s');
               under = elementFromPoint env x y;
               hover =
                 (if under \<noteq> lastHoveredElement s
                  then (case lastHoveredElement s of
                          Some old \<Rightarrow> [Dispatch old mouseout 0 0 False,
                                       Dispatch old pointerout 0 0 False]
                        | None \<Rightarrow> [])
                     @ (case under of
                          Some el \<Rightarrow> [Dispatch el mouseover 0 0 False,
                                      Dispatch el pointerover 0 0 False]
                        | None \<Rightarrow> [])
                  else [])
                 @ (case under of
                      Some el \<Rightarrow> [Dispatch el pointermove x y False]
                    | None \<Rightarrow> []);
               scroll =
                 (case scrollContainer env of
                    Some sc \<Rightarrow>
                      if sc = E \<or> node_contains env sc E
                      then [ScrollTopSub sc (y - snd (lastCursorPos s))] else []
                  | None \<Rightarrow> [])
           in lastHoveredElement s' = under
            \<and> (\<not> isPinchingRef s \<and> isPinchingRef s' \<and> under = Some E \<longrightarrow>
                 events s' = events s @ [PlaySound ''click''] @ hover
                   @ [Dispatch E pointerdown x y True, Dispatch E mousedown x y False]
                 \<and> isDraggingUI s' \<and> dragTarget s' = Some E)
            \<and> (isPinchingRef s \<and> isPinchingRef s' \<and> isDraggingUI s \<and> dragTarget s = Some E
                 \<longrightarrow>
                 events s' = events s @ hover @ scroll @ [Dispatch E pointermove x y True]
                 \<and> isDraggingUI s' \<and> dragTarget s' = Some E)
            \<and> (isPinchingRef s \<and> \<not> isPinchingRef s' \<and> isDraggingUI s
                 \<and> dragTarget s = Some E \<longrightarrow>
                 events s' = events s @ hover
                   @ [Dispatch E pointerup x y True, Dispatch E mouseup x y False,
                      Dispatch E click x y False]
                 \<and> \<not> isDraggingUI s' \<and> dragTarget s' = None))"
    unfolding Let_def
  proof (intro conjI impI)
    show "lastHoveredElement s' =
        elementFromPoint env (cur_x (cursor s')) (cur_y (cursor s'))"
      by (rule sess1(3))
  next
    assume a: "\<not> isPinchingRef s \<and> isPinchingRef s'
      \<and> elementFromPoint env (cur_x (cursor s')) (cur_y (cursor s')) = Some E"
    then show "isDraggingUI s'" "dragTarget s' = Some E"
      using sess1(1,2) by simp_all
    from a ev1 show "events s' = events s @ [PlaySound ''click'']
        @ ((if elementFromPoint env (cur_x (cursor s')) (cur_y (cursor s'))
               \<noteq> lastHoveredElement s
            then (case lastHoveredElement s of
                    None \<Rightarrow> []
                  | Some old \<Rightarrow> [Dispatch old mouseout 0 0 False,
                                 Dispatch old pointerout 0 0 False])
               @ (case elementFromPoint env (cur_x (cursor s')) (cur_y (cursor s')) of
                    None \<Rightarrow> []
                  | Some el \<Rightarrow> [Dispatch el mouseover 0 0 False,
                                Dispatch el pointerover 0 0 False])
            else [])
           @ (case elementFromPoint env (cur_x (cursor s')) (cur_y (cursor s')) of
                None \<Rightarrow> []
              | Some el \<Rightarrow> [Dispatch el pointermove (cur_x (cursor s'))
                              (cur_y (cursor s')) False]))
        @ [Dispatch E pointerdown (cur_x (cursor s')) (cur_y (cursor s')) True,
           Dispatch E mousedown (cur_x (cursor s')) (cur_y (cursor s')) False]"
      by simp
  next
    assume a: "isPinchingRef s \<and> isPinchingRef s' \<and> isDraggingUI s
      \<and> dragTarget s = Some E"
    then show "isDraggingUI s'" "dragTarget s' = Some E"
      using sess1(1,2) by simp_all
    from a ev1 show "events s' = events s
        @ ((if elementFromPoint env (cur_x (cursor s')) (cur_y (cursor s'))
               \<noteq> lastHoveredElement s
            then (case lastHoveredElement s of
                    None \<Rightarrow> []
                  | Some old \<Rightarrow> [Dispatch old mouseout 0 0 False,
                                 Dispatch old pointerout 0 0 False])
               @ (case elementFromPoint env (cur_x (cursor s')) (cur_y (cursor s')) of
                    None \<Rightarrow> []
                  | Some el \<Rightarrow> [Dispatch el mouseover 0 0 False,
                                Dispatch el pointerover 0 0 False])
            else [])
           @ (case elementFromPoint env (cur_x (cursor s')) (cur_y (cursor s')) of
                None \<Rightarrow> []
              | Some el \<Rightarrow> [Dispatch el pointermove (cur_x (cursor s'))
                              (cur_y (cursor s')) False]))
        @ (case scrollContainer env of
             None \<Rightarrow> []
           | Some sc \<Rightarrow>
               if sc = E \<or> node_contains env sc E
               then [ScrollTopSub sc (cur_y (cursor s') - snd (lastCursorPos s))] else [])
        @ [Dispatch E pointermove (cur_x (cursor s')) (cur_y (cursor s')) True]"
      by (cases "scrollContainer env") simp_all
  next
    assume a: "isPinchingRef s \<and> \<not> isPinchingRef s' \<and> isDraggingUI s
      \<and> dragTarget s = Some E"
    then show "\<not> isDraggingUI s'" "dragTarget s' = None"
      using sess1(1,2) by simp_all
    from a ev1 show "events s' = events s
        @ ((if elementFromPoint env (cur_x (cursor s')) (cur_y (cursor s'))
               \<noteq> lastHoveredElement s
            then (case lastHoveredElement s of
                    None \<Rightarrow> []
                  | Some old \<Rightarrow> [Dispatch old mouseout 0 0 False,
                                 Dispatch old pointerout 0 0 False])
               @ (case elementFromPoint env (cur_x (cursor s')) (cur_y (cursor s')) of
                    None \<Rightarrow> []
                  | Some el \<Rightarrow> [Dispatch el mouseover 0 0 False,
                                Dispatch el pointerover 0 0 False])
            else [])
           @ (case elementFromPoint env (cur_x (cursor s')) (cur_y (cursor s')) of
                None \<Rightarrow> []
              | Some el \<Rightarrow> [Dispatch el pointermove (cur_x (cursor s'))
                              (cur_y (cursor s')) False]))
        @ [Dispatch E pointerup (cur_x (cursor s')) (cur_y (cursor s')) True,
           Dispatch E mouseup (cur_x (cursor s')) (cur_y (cursor s')) False,
           Dispatch E click (cur_x (cursor s')) (cur_y (cursor s')) False]"
      by simp
  qed
  show "\<exists>s'. processRightHand env t lms s = Some s'
        \<and> (let x = cur_x (cursor s'); y = cur_y (cursor s');
               under = elementFromPoint env x y;
               hover =
                 (if under \<noteq> lastHoveredElement s
                  then (case lastHoveredElement s of
                          Some old \<Rightarrow> [Dispatch old mouseout 0 0 False,
                                       Dispatch old pointerout 0 0 False]
                        | None \<Rightarrow> [])
                     @ (case under of
                          Some el \<Rightarrow> [Dispatch el mouseover 0 0 False,
                                      Dispatch el pointerover 0 0 False]
                        | None \<Rightarrow> [])
                  else [])
                 @ (case under of
                      Some el \<Rightarrow> [Dispatch el pointermove x y False]
                    | None \<Rightarrow> []);
               scroll =
                 (case scrollContainer env of
                    Some sc \<Rightarrow>
                      if sc = E \<or> node_contains env sc E
                      then [ScrollTopSub sc (y - snd (lastCursorPos s))] else []
                  | None \<Rightarrow> [])
           in lastHoveredElement s' = under
            \<and> (\<not> isPinchingRef s \<and> isPinchingRef s' \<and> under = Some E \<longrightarrow>
                 events s' = events s @ [PlaySound ''click''] @ hover
                   @ [Dispatch E pointerdown x y True, Dispatch E mousedown x y False]
                 \<and> isDraggingUI s' \<and> dragTarget s' = Some E)
            \<and> (isPinchingRef s \<and> isPinchingRef s' \<and> isDraggingUI s \<and> dragTarget s = Some E
                 \<longrightarrow>
                 events s' = events s @ hover @ scroll @ [Dispatch E pointermove x y True]
                 \<and> isDraggingUI s' \<and> dragTarget s' = Some E)
            \<and> (isPinchingRef s \<and> \<not> isPinchingRef s' \<and> isDraggingUI s
                 \<and> dragTarget s = Some E \<longrightarrow>
                 events s' = events s @ hover
                   @ [Dispatch E pointerup x y True, Dispatch E mouseup x y False,
                      Dispatch E click x y False]
                 \<and> \<not> isDraggingUI s' \<and> dragTarget s' = None))"
    by (rule exI [of _ s'], rule conjI, rule s', rule main)
qed

theorem drag_capture_witness:
  "(events afterPress = events initialState @ [PlaySound ''click'']
        @ [Dispatch 1 mouseover 0 0 False, Dispatch 1 pointerover 0 0 False,
           Dispatch 1 pointermove 200 0 False]
        @ [Dispatch 1 pointerdown 200 0 True, Dispatch 1 mousedown 200 0 False]
      \<and> isDraggingUI afterPress \<and> dragTarget afterPress = Some 1)
   \<and> (events afterDrag = events afterPress
        @ [Dispatch 1 mouseout 0 0 False, Dispatch 1 pointerout 0 0 False,
           Dispatch 2 mouseover 0 0 False, Dispatch 2 pointerover 0 0 False,
           Dispatch 2 pointermove 220 0 False]
        @ [Dispatch 1 pointermove 220 0 True]
      \<and> isDraggingUI afterDrag \<and> dragTarget afterDrag = Some 1
      \<and> lastHoveredElement afterDrag = Some 2)
   \<and> (events afterRelease = events afterDrag
        @ [Dispatch 2 pointermove 800 0 False]
        @ [Dispatch 1 pointerup 800 0 True, Dispatch 1 mouseup 800 0 False,
           Dispatch 1 click 800 0 False]
      \<and> \<not> isDraggingUI afterRelease \<and> dragTarget afterRelease = None)"
proof -
  have st: "\<not> isPinchingRef initialState" "isPinchingRef afterPress" "isPinchingRef afterDrag"
    "\<not> isPinchingRef afterRelease" "isDraggingUI afterPress" "dragTarget afterPress = Some 1"
    "isDraggingUI afterDrag" "dragTarget afterDrag = Some 1"
    "cur_x (cursor afterPress) = 200" "cur_y (cursor afterPress) = 0"
    "cur_x (cursor afterDrag) = 220" "cur_y (cursor afterDrag) = 0"
    "cur_x (cursor afterRelease) = 800" "cur_y (cursor afterRelease) = 0"
    "lastHoveredElement initialState = None" "lastHoveredElement afterPress = Some 1"
    "lastHoveredElement afterDrag = Some 2"
    "elementFromPoint page 200 0 = Some 1" "elementFromPoint page 220 0 = Some 2"
    "elementFromPoint page 800 0 = Some 2" "scrollContainer page = None"
    by (simp_all add: afterPress_def afterDrag_def afterRelease_def page_def)
  have len: "length (pointingPoints 0.8 0.01) = 21" "length (pointingPoints 0 0.01) = 21"
    "length (pointingPoints 0 0.08) = 21"
    by simp_all
  from drag_capture [of "pointingPoints 0.8 0.01" page 0 initialState 1] len(1)
  have "events afterPress = events initialState @ [PlaySound ''click'']
        @ [Dispatch 1 mouseover 0 0 False, Dispatch 1 pointerover 0 0 False,
           Dispatch 1 pointermove 200 0 False]
        @ [Dispatch 1 pointerdown 200 0 True, Dispatch 1 mousedown 200 0 False]
      \<and> isDraggingUI afterPress \<and> dragTarget afterPress = Some 1"
    unfolding step_press by (simp add: st Let_def)
  moreover
  from drag_capture [of "pointingPoints 0 0.01" page 16 afterPress 1] len(2)
  have "events afterDrag = events afterPress
        @ [Dispatch 1 mouseout 0 0 False, Dispatch 1 pointerout 0 0 False,
           Dispatch 2 mouseover 0 0 False, Dispatch 2 pointerover 0 0 False,
           Dispatch 2 pointermove 220 0 False]
        @ [Dispatch 1 pointermove 220 0 True]
      \<and> isDraggingUI afterDrag \<and> dragTarget afterDrag = Some 1
      \<and> lastHoveredElement afterDrag = Some 2"
    unfolding step_drag by (simp add: st Let_def)
  moreover
  from drag_capture [of "pointingPoints 0 0.08" page 32 afterDrag 1] len(3)
  have "events afterRelease = events afterDrag
        @ [Dispatch 2 pointermove 800 0 False]
        @ [Dispatch 1 pointerup 800 0 True, Dispatch 1 mouseup 800 0 False,
           Dispatch 1 click 800 0 False]
      \<and> \<not> isDraggingUI afterRelease \<and> dragTarget afterRelease = None"
    unfolding step_release by (simp add: st Let_def)
  ultimately show ?thesis by blast
qed

text \<open>
  C7 as stated fails on the drag above, whose session is on element 1. In the frame in which
  the pinch is sustained and the cursor is over element 2, the hover simulation dispatches
  \<^verbatim>\<open>mouseover\<close>, \<^verbatim>\<open>pointerover\<close> and a \<^verbatim>\<open>pointermove\<close> to element 2 as well. And when
  the right hand is lost and comes back, the session has ended with a single \<^verbatim>\<open>pointerup\<close>:
  element 1 gets no \<^verbatim>\<open>mouseup\<close> and no \<^verbatim>\<open>click\<close>, not even when the pinch is released.
\<close>

theorem drag_capture_counterexample:
  "runFrames initialState [frameAt 0 [rightHandAt 0.8 0.01]] = Some afterPress
   \<and> isPinchingRef afterPress \<and> dragTarget afterPress = Some 1
   \<and> predictWebcam afterPress (frameAt 16 [rightHandAt 0 0.01]) = Some afterDrag
   \<and> isPinchingRef afterDrag
   \<and> elementFromPoint page (cur_x (cursor afterDrag)) (cur_y (cursor afterDrag)) = Some 2
   \<and> events afterDrag = events afterPress
        @ [Dispatch 1 mouseout 0 0 False, Dispatch 1 pointerout 0 0 False,
           Dispatch 2 mouseover 0 0 False, Dispatch 2 pointerover 0 0 False,
           Dispatch 2 pointermove 220 0 False, Dispatch 1 pointermove 220 0 True]
   \<and> runFrames afterDrag
        [frameAt 32 [leftFist 0.3], frameAt 48 [rightHandAt 0 0.01],
         frameAt 64 [rightHandAt 0 0.08]] = Some afterReturnRelease
   \<and> events afterReturnRelease = events afterDrag
        @ [Dispatch 1 pointerup 0 0 False, Dispatch 2 pointermove 230 0 False,
           Dispatch 2 mouseout 0 0 False, Dispatch 2 pointerout 0 0 False]
   \<and> \<not> isPinchingRef afterReturnRelease \<and> dragTarget afterReturnRelease = None"
proof -
  have "runFrames initialState [frameAt 0 [rightHandAt 0.8 0.01]] = Some afterPress"
    using frame_press by simp
  moreover have "runFrames afterDrag
        [frameAt 32 [leftFist 0.3], frameAt 48 [rightHandAt 0 0.01],
         frameAt 64 [rightHandAt 0 0.08]] = Some afterReturnRelease"
    using frame_loss frame_return frame_return_release by simp
  moreover have "predictWebcam afterPress (frameAt 16 [rightHandAt 0 0.01]) = Some afterDrag"
    using frame_drag by simp
  moreover have "isPinchingRef afterPress \<and> dragTarget afterPress = Some 1
   \<and> isPinchingRef afterDrag
   \<and> elementFromPoint page (cur_x (cursor afterDrag)) (cur_y (cursor afterDrag)) = Some 2
   \<and> events afterDrag = events afterPress
        @ [Dispatch 1 mouseout 0 0 False, Dispatch 1 pointerout 0 0 False,
           Dispatch 2 mouseover 0 0 False, Dispatch 2 pointerover 0 0 False,
           Dispatch 2 pointermove 220 0 False, Dispatch 1 pointermove 220 0 True]
   \<and> events afterReturnRelease = events afterDrag
        @ [Dispatch 1 pointerup 0 0 False, Dispatch 2 pointermove 230 0 False,
           Dispatch 2 mouseout 0 0 False, Dispatch 2 pointerout 0 0 False]
   \<and> \<not> isPinchingRef afterReturnRelease \<and> dragTarget afterReturnRelease = None"
    by (simp add: afterPress_def afterDrag_def afterLoss_def afterReturn_def
        afterReturnRelease_def page_def dragEvents_def)
  ultimately show ?thesis by blast
qed

section \<open>The two hands of a frame\<close>

text \<open>The right hand neither reads nor writes what the left hand writes.\<close>

lemma handleCursorInteraction_left_update:
  "handleCursorInteraction env x y d isDown wasDown
     (s\<lparr>mode := m, scrollOffset := sc, leftPinchSmoother := e1,
        leftOpenPalmSmoother := e2, leftHandX_EMA := e3\<rparr>)
   = (handleCursorInteraction env x y d isDown wasDown s)
       \<lparr>mode := m, scrollOffset := sc, leftPinchSmoother := e1,
        leftOpenPalmSmoother := e2, leftHandX_EMA := e3\<rparr>"
  by (cases isDown; cases wasDown; cases "isDraggingUI s"; cases "elementFromPoint env x y";
      cases "dragTarget s"; cases "lastHoveredElement s"; cases "scrollContainer env")
    (simp_all add: handleCursorInteraction_def Let_def)

lemma handleCursorInteraction_withLeft:
  "handleCursorInteraction env x y d isDown wasDown (withLeft u s)
   = withLeft u (handleCursorInteraction env x y d isDown wasDown s)"
  unfolding withLeft_def by (simp only: handleCursorInteraction_left_update)

lemma withLeft_right_fields [simp]:
  "cursor (withLeft u s) = cursor s" "lastLeftHandTime (withLeft u s) = lastLeftHandTime s"
  "cursorX_EMA (withLeft u s) = cursorX_EMA s" "cursorY_EMA (withLeft u s) = cursorY_EMA s"
  "isPinchingRef (withLeft u s) = isPinchingRef s" "anchorPos (withLeft u s) = anchorPos s"
  "lastCursorPos (withLeft u s) = lastCursorPos s" "isDraggingUI (withLeft u s) = isDraggingUI s"
  "dragTarget (withLeft u s) = dragTarget s"
  "lastHoveredElement (withLeft u s) = lastHoveredElement s"
  "events (withLeft u s) = events s"
  by (simp_all add: withLeft_def)

lemma withLeft_left_fields [simp]:
  "mode (withLeft u s) = mode u" "scrollOffset (withLeft u s) = scrollOffset u"
  "leftPinchSmoother (withLeft u s) = leftPinchSmoother u"
  "leftOpenPalmSmoother (withLeft u s) = leftOpenPalmSmoother u"
  "leftHandX_EMA (withLeft u s) = leftHandX_EMA u"
  by (simp_all add: withLeft_def)

lemma withLeft_right_update:
  "(withLeft u s)\<lparr>cursorX_EMA := ex, cursorY_EMA := ey, isPinchingRef := p, anchorPos := a,
      lastCursorPos := l, cursor := c, events := e\<rparr>
   = withLeft u (s\<lparr>cursorX_EMA := ex, cursorY_EMA := ey, isPinchingRef := p, anchorPos := a,
      lastCursorPos := l, cursor := c, events := e\<rparr>)"
  by (simp add: withLeft_def)

lemma processRightHand_short:
  "\<not> 8 < length lms \<Longrightarrow> processRightHand env t lms s = None"
  by (simp add: processRightHand_def landmark_def)

lemma processRightHand_withLeft:
  "processRightHand env t lms (withLeft u s) = map_option (withLeft u) (processRightHand env t lms s)"
proof (cases "8 < length lms")
  case False
  then show ?thesis by (simp add: processRightHand_short)
next
  case True
  then have lm: "landmark lms 8 = Some (lms ! 8)" "landmark lms 4 = Some (lms ! 4)"
    by (simp_all add: landmark_def)
  show ?thesis
    unfolding processRightHand_def lm
    by (simp add: Let_def split_def withLeft_right_update handleCursorInteraction_withLeft)
qed

text \<open>
  The left hand writes its own fields only, and reads, beyond them, only the flag
  \<open>isDraggingUI\<close>.
\<close>

lemma processLeftHand_own:
  assumes "processLeftHand lms s = Some u"
  shows "u = withLeft u s"
  using processLeftHand_cases [OF assms] by (auto simp: withLeft_def)

lemma processLeftHand_dragging: "isDraggingUI s \<Longrightarrow> processLeftHand lms s = Some s"
  by (simp add: processLeftHand_def)

lemma processLeftHand_withLeft:
  assumes "\<not> isDraggingUI s" and "\<not> isDraggingUI s'"
  shows "processLeftHand lms (withLeft s s')
     = map_option (\<lambda>u. withLeft u s') (processLeftHand lms s)"
  using assms
  by (cases "landmark lms 4"; cases "landmark lms 8"; cases "landmark lms 9";
      cases "landmark lms 0";
      cases "countExtended lms (the (landmark lms 0)) [(8, 6), (12, 10), (16, 14), (20, 18)] 0")
    (simp_all add: processLeftHand_def Let_def split_def withLeft_def
      del: countExtended.simps)

lemma processRightHand_no_edge:
  assumes "processRightHand env t lms s = Some s'" and "isPinchingRef s' = isPinchingRef s"
  shows "isDraggingUI s' = isDraggingUI s" and "dragTarget s' = dragTarget s"
proof -
  from processRightHand_dispatch [OF assms(1)] obtain x y d s0 where
    hci: "s' = handleCursorInteraction env x y d (isPinchingRef s0) (isPinchingRef s) s0"
    and d0: "isDraggingUI s0 = isDraggingUI s" "dragTarget s0 = dragTarget s"
    by blast
  from hci have p: "isPinchingRef s' = isPinchingRef s0" by simp
  from assms(2) p d0 show "isDraggingUI s' = isDraggingUI s"
    unfolding hci by (auto simp: handleCursorInteraction_isDraggingUI)
  from assms(2) p d0 show "dragTarget s' = dragTarget s"
    unfolding hci by (auto simp: handleCursorInteraction_dragTarget)
qed

text \<open>
  C3, as the code has it. The left hand reads the flag \<open>isDraggingUI\<close>, which the right hand
  writes. When the right hand leaves this flag as it was, processing the left hand and then
  the right hand gives the same result as the opposite order: the same state, or an
  exception in both. In every case, for hands of 21 landmarks, both orders return, with
  the same cursor, pinching state, anchor, drag session, hovered element and events: only
  what the left hand writes (mode, scroll offset, its smoothers) can depend on the order.
\<close>

theorem hands_commute:
  "((\<forall>s'. processRightHand env t r s = Some s' \<longrightarrow> isDraggingUI s' = isDraggingUI s) \<longrightarrow>
       Option.bind (processLeftHand l s) (processRightHand env t r)
     = Option.bind (processRightHand env t r s) (processLeftHand l))
   \<and> (length l = 21 \<and> length r = 21 \<longrightarrow>
       (\<exists>a b. Option.bind (processLeftHand l s) (processRightHand env t r) = Some a
            \<and> Option.bind (processRightHand env t r s) (processLeftHand l) = Some b
            \<and> cursor a = cursor b \<and> isPinchingRef a = isPinchingRef b
            \<and> anchorPos a = anchorPos b \<and> lastCursorPos a = lastCursorPos b
            \<and> isDraggingUI a = isDraggingUI b \<and> dragTarget a = dragTarget b
            \<and> lastHoveredElement a = lastHoveredElement b \<and> events a = events b))"
proof (intro conjI impI)
  assume keep: "\<forall>s'. processRightHand env t r s = Some s' \<longrightarrow> isDraggingUI s' = isDraggingUI s"
  show "Option.bind (processLeftHand l s) (processRightHand env t r)
     = Option.bind (processRightHand env t r s) (processLeftHand l)"
  proof (cases "isDraggingUI s")
    case True
    then have ls: "processLeftHand l s = Some s" by (rule processLeftHand_dragging)
    show ?thesis
    proof (cases "processRightHand env t r s")
      case None
      with ls show ?thesis by simp
    next
      case (Some s')
      with keep True have "isDraggingUI s'" by simp
      then have "processLeftHand l s' = Some s'" by (rule processLeftHand_dragging)
      with ls Some show ?thesis by simp
    qed
  next
    case False
    show ?thesis
    proof (cases "processRightHand env t r s")
      case None
      show ?thesis
      proof (cases "processLeftHand l s")
        case noLeft: None
        with None show ?thesis by simp
      next
        case (Some u)
        from processLeftHand_own [OF Some] have "u = withLeft u s" .
        then have "processRightHand env t r u
            = map_option (withLeft u) (processRightHand env t r s)"
          using processRightHand_withLeft [of env t r u s] by simp
        with None Some show ?thesis by simp
      qed
    next
      case (Some s')
      with keep False have nd: "\<not> isDraggingUI s'" by simp
      from processRightHand_left_fields [OF Some] have "withLeft s s' = s'"
        by (simp add: withLeft_def)
      with processLeftHand_withLeft [OF False nd, of l]
      have right_left: "processLeftHand l s' = map_option (\<lambda>u. withLeft u s') (processLeftHand l s)"
        by simp
      show ?thesis
      proof (cases "processLeftHand l s")
        case None
        with Some right_left show ?thesis by simp
      next
        case left: (Some u)
        from processLeftHand_own [OF left] have "u = withLeft u s" .
        then have "processRightHand env t r u
            = map_option (withLeft u) (processRightHand env t r s)"
          using processRightHand_withLeft [of env t r u s] by simp
        with Some left right_left show ?thesis by simp
      qed
    qed
  qed
next
  assume len: "length l = 21 \<and> length r = 21"
  then obtain u where u: "processLeftHand l s = Some u"
    using processLeftHand_total [of l s] by auto
  from len obtain s' where s': "processRightHand env t r s = Some s'"
    using processRightHand_total [of r env t s] by auto
  from len obtain b where b: "processLeftHand l s' = Some b"
    using processLeftHand_total [of l s'] by auto
  from processLeftHand_own [OF u] have "u = withLeft u s" .
  then have "processRightHand env t r u = map_option (withLeft u) (processRightHand env t r s)"
    using processRightHand_withLeft [of env t r u s] by simp
  with s' have a: "processRightHand env t r u = Some (withLeft u s')" by simp
  note same = processLeftHand_right_fields [OF b]
  have "Option.bind (processLeftHand l s) (processRightHand env t r) = Some (withLeft u s')"
    using u a by simp
  moreover have "Option.bind (processRightHand env t r s) (processLeftHand l) = Some b"
    using s' b by simp
  moreover have "cursor (withLeft u s') = cursor b
      \<and> isPinchingRef (withLeft u s') = isPinchingRef b
      \<and> anchorPos (withLeft u s') = anchorPos b
      \<and> lastCursorPos (withLeft u s') = lastCursorPos b
      \<and> isDraggingUI (withLeft u s') = isDraggingUI b
      \<and> dragTarget (withLeft u s') = dragTarget b
      \<and> lastHoveredElement (withLeft u s') = lastHoveredElement b
      \<and> events (withLeft u s') = events b"
    using same by simp
  ultimately show "\<exists>a b. Option.bind (processLeftHand l s) (processRightHand env t r) = Some a
            \<and> Option.bind (processRightHand env t r s) (processLeftHand l) = Some b
            \<and> cursor a = cursor b \<and> isPinchingRef a = isPinchingRef b
            \<and> anchorPos a = anchorPos b \<and> lastCursorPos a = lastCursorPos b
            \<and> isDraggingUI a = isDraggingUI b \<and> dragTarget a = dragTarget b
            \<and> lastHoveredElement a = lastHoveredElement b \<and> events a = events b"
    by blast
qed

theorem hands_commute_witness:
  "Option.bind (processLeftHand (fistPoints 0.01) initialState)
       (processRightHand page 0 (pointingPoints 0.8 0.3))
     = Option.bind (processRightHand page 0 (pointingPoints 0.8 0.3) initialState)
         (processLeftHand (fistPoints 0.01))
   \<and> (\<exists>a b. Option.bind (processLeftHand (fistPoints 0.01) initialState)
               (processRightHand page 0 (pointingPoints 0.8 0.01)) = Some a
         \<and> Option.bind (processRightHand page 0 (pointingPoints 0.8 0.01) initialState)
               (processLeftHand (fistPoints 0.01)) = Some b
         \<and> cursor a = cursor b \<and> isDraggingUI a = isDraggingUI b
         \<and> dragTarget a = dragTarget b \<and> events a = events b)"
proof -
  have "isDraggingUI s' = isDraggingUI initialState"
    if s': "processRightHand page 0 (pointingPoints 0.8 0.3) initialState = Some s'" for s'
  proof -
    from processRightHand_pinch [OF s'] have "isPinchingRef s' = isPinchingRef initialState"
      by (simp add: PINCH_THRESHOLD_ON_def PINCH_THRESHOLD_OFF_def)
    from processRightHand_no_edge(1) [OF s' this] show ?thesis .
  qed
  with hands_commute [where l = "fistPoints 0.01" and r = "pointingPoints 0.8 0.3"
      and env = page and t = 0 and s = initialState, THEN conjunct1]
  have "Option.bind (processLeftHand (fistPoints 0.01) initialState)
       (processRightHand page 0 (pointingPoints 0.8 0.3))
     = Option.bind (processRightHand page 0 (pointingPoints 0.8 0.3) initialState)
         (processLeftHand (fistPoints 0.01))"
    by blast
  moreover
  from hands_commute [where l = "fistPoints 0.01" and r = "pointingPoints 0.8 0.01"
      and env = page and t = 0 and s = initialState, THEN conjunct2]
  have "\<exists>a b. Option.bind (processLeftHand (fistPoints 0.01) initialState)
               (processRightHand page 0 (pointingPoints 0.8 0.01)) = Some a
         \<and> Option.bind (processRightHand page 0 (pointingPoints 0.8 0.01) initialState)
               (processLeftHand (fistPoints 0.01)) = Some b
         \<and> cursor a = cursor b \<and> isDraggingUI a = isDraggingUI b
         \<and> dragTarget a = dragTarget b \<and> events a = events b"
    by auto
  ultimately show ?thesis by blast
qed

text \<open>
  C3 as stated fails in the initial state, for a pinching left hand and a right hand that
  starts a pinch over element 1. Left hand first: the mode becomes FOCUS, then the drag
  starts. Right hand first: the drag starts, and the left hand is not processed at all, so
  the mode stays AGGREGATE. The same holds for the two frames that list the hands in these
  orders.
\<close>

theorem hands_commute_counterexample:
  "map_option mode
     (Option.bind (processLeftHand (fistPoints 0.01) initialState)
        (processRightHand page 0 (pointingPoints 0.8 0.01))) = Some FOCUS
   \<and> map_option mode
     (Option.bind (processRightHand page 0 (pointingPoints 0.8 0.01) initialState)
        (processLeftHand (fistPoints 0.01))) = Some AGGREGATE
   \<and> map_option mode
     (predictWebcam initialState (frameAt 0 [leftFist 0.01, rightHandAt 0.8 0.01]))
       = Some FOCUS
   \<and> map_option mode
     (predictWebcam initialState (frameAt 0 [rightHandAt 0.8 0.01, leftFist 0.01]))
       = Some AGGREGATE"
proof -
  obtain u where u: "processLeftHand (fistPoints 0.01) initialState = Some u"
    and mu: "mode u = FOCUS"
    by (simp add: processLeftHand_fist initialState_def EMA_new_def EMA_update_def
        modeUpdater_def)
  from processLeftHand_own [OF u] have "u = withLeft u initialState" .
  then have "processRightHand page 0 (pointingPoints 0.8 0.01) u
      = map_option (withLeft u) (processRightHand page 0 (pointingPoints 0.8 0.01) initialState)"
    using processRightHand_withLeft [of page 0 "pointingPoints 0.8 0.01" u initialState]
    by simp
  then have lr: "processRightHand page 0 (pointingPoints 0.8 0.01) u
      = Some (withLeft u afterPress)"
    unfolding step_press by simp
  have rl: "processLeftHand (fistPoints 0.01) afterPress = Some afterPress"
    by (rule processLeftHand_dragging) (simp add: afterPress_def)
  have ma: "mode afterPress = AGGREGATE"
    by (simp add: afterPress_def)
  have t0: "lastLeftHandTime afterPress = 0" "lastLeftHandTime (withLeft u afterPress) = 0"
    by (simp_all add: afterPress_def)
  have c1: "map_option mode
     (Option.bind (processLeftHand (fistPoints 0.01) initialState)
        (processRightHand page 0 (pointingPoints 0.8 0.01))) = Some FOCUS"
    using u lr mu by simp
  have c2: "map_option mode
     (Option.bind (processRightHand page 0 (pointingPoints 0.8 0.01) initialState)
        (processLeftHand (fistPoints 0.01))) = Some AGGREGATE"
    using step_press rl ma by simp
  have c3: "map_option mode
     (predictWebcam initialState (frameAt 0 [leftFist 0.01, rightHandAt 0.8 0.01]))
       = Some FOCUS"
    using u lr mu t0
    by (simp add: predictWebcam_def frameAt_def leftFist_def rightHandAt_def)
  have c4: "map_option mode
     (predictWebcam initialState (frameAt 0 [rightHandAt 0.8 0.01, leftFist 0.01]))
       = Some AGGREGATE"
    using step_press rl ma t0
    by (simp add: predictWebcam_def frameAt_def leftFist_def rightHandAt_def)
  from c1 c2 c3 c4 show ?thesis by blast
qed

end
